theory Spec2Isabelle
  imports Main "HOL-Library.Word"
begin

section \<open>Data model of \<^verbatim>\<open>src/processors/base_processor.py\<close>\<close>

text \<open>
  The chunk builder reads seven attributes of a tree-sitter node: \<^verbatim>\<open>text\<close> (bytes),
  \<^verbatim>\<open>start_byte\<close>, \<^verbatim>\<open>end_byte\<close>, \<^verbatim>\<open>start_point\<close>, \<^verbatim>\<open>end_point\<close>, \<^verbatim>\<open>type\<close> and
  \<^verbatim>\<open>children\<close>. They are modelled as independent fields, exactly as the code reads them.
  The \<^verbatim>\<open>text\<close> of a node is a \<^verbatim>\<open>bytes\<close> value, as it is in a tree that \<^verbatim>\<open>process_code\<close>
  parsed from bytes; offsets and points are non-negative.
  A Python \<^verbatim>\<open>bytes\<close> value is a list of 8-bit words, a Python \<^verbatim>\<open>str\<close> is the list of its
  Unicode code points (so that \<^verbatim>\<open>len\<close> counts code points, not bytes).
\<close>

type_synonym byte = "8 word"
type_synonym pystr = "nat list"
type_synonym point = "nat \<times> nat"

datatype node = Node
  (node_text: "byte list")
  (start_byte: nat)
  (end_byte: nat)
  (start_point: point)
  (end_point: point)
  (node_type: string)
  (children: "node list")

text \<open>The dictionary appended by \<^verbatim>\<open>add_chunk\<close>: \<^verbatim>\<open>{"content": ..., "metadata": {...}}\<close>.\<close>

record metadata =
  md_id :: nat
  md_type :: string
  md_start_point :: point
  md_end_point :: point
  md_file_name :: string

record chunk =
  content :: pystr
  metadata :: metadata

text \<open>
  The exceptions that can arise inside \<^verbatim>\<open>get_chunks\<close>: the first two are raised by
  statements of the code, \<^verbatim>\<open>RecursionError\<close> by the interpreter when calls nest too deeply.
\<close>

datatype error = UnicodeDecodeError | IndexError | RecursionError

definition MAX_CHUNK_SIZE :: nat where
  "MAX_CHUNK_SIZE = 2048"

definition MIN_CHUNK_SIZE :: nat where
  "MIN_CHUNK_SIZE = 1024"

section \<open>Python primitives used by the code\<close>

text \<open>
  \<^verbatim>\<open>bytes.decode('utf-8')\<close> in strict mode: the well-formed byte sequences of the Unicode
  standard (no overlong forms, no surrogates, nothing above U+10FFFF) decode to their code
  points, every other input raises \<^verbatim>\<open>UnicodeDecodeError\<close>. \<open>utf8_step\<close> decodes the first
  code point and reports how many bytes it took.
\<close>

definition is_cont :: "byte \<Rightarrow> bool" where
  "is_cont b \<longleftrightarrow> 0x80 \<le> b \<and> b \<le> 0xBF"

definition cont_bits :: "byte \<Rightarrow> nat" where
  "cont_bits b = unat b mod 64"

fun utf8_step :: "byte list \<Rightarrow> (nat \<times> nat) option" where
  "utf8_step [] = None"
| "utf8_step (b0 # bs) =
     (if b0 < 0x80 then Some (unat b0, 1)
      else if 0xC2 \<le> b0 \<and> b0 \<le> 0xDF then
        (case bs of
           b1 # _ \<Rightarrow>
             if is_cont b1 then Some ((unat b0 mod 32) * 64 + cont_bits b1, 2) else None
         | _ \<Rightarrow> None)
      else if 0xE0 \<le> b0 \<and> b0 \<le> 0xEF then
        (case bs of
           b1 # b2 # _ \<Rightarrow>
             if is_cont b1 \<and> is_cont b2
                \<and> (b0 = 0xE0 \<longrightarrow> 0xA0 \<le> b1) \<and> (b0 = 0xED \<longrightarrow> b1 \<le> 0x9F)
             then Some ((unat b0 mod 16) * 4096 + cont_bits b1 * 64 + cont_bits b2, 3)
             else None
         | _ \<Rightarrow> None)
      else if 0xF0 \<le> b0 \<and> b0 \<le> 0xF4 then
        (case bs of
           b1 # b2 # b3 # _ \<Rightarrow>
             if is_cont b1 \<and> is_cont b2 \<and> is_cont b3
                \<and> (b0 = 0xF0 \<longrightarrow> 0x90 \<le> b1) \<and> (b0 = 0xF4 \<longrightarrow> b1 \<le> 0x8F)
             then Some ((unat b0 mod 8) * 262144 + cont_bits b1 * 4096
                        + cont_bits b2 * 64 + cont_bits b3, 4)
             else None
         | _ \<Rightarrow> None)
      else None)"

lemma utf8_step_consumes:
  "utf8_step bs = Some (cp, k) \<Longrightarrow> 0 < k \<and> k \<le> length bs"
  by (cases bs) (auto split: if_splits list.splits)

function utf8_decode :: "byte list \<Rightarrow> error + pystr" where
  "utf8_decode bs =
     (if bs = [] then Inr []
      else (case utf8_step bs of
              None \<Rightarrow> Inl UnicodeDecodeError
            | Some (cp, k) \<Rightarrow>
                (case utf8_decode (drop k bs) of
                   Inl e \<Rightarrow> Inl e
                 | Inr cps \<Rightarrow> Inr (cp # cps))))"
  by pat_completeness auto
termination
proof (relation "measure length")
  show "wf (measure length)" by simp
next
  fix bs :: "byte list" and x2 x y
  assume "bs \<noteq> []" "utf8_step bs = Some x2" "(x, y) = x2"
  then have "utf8_step bs = Some (x, y)" by simp
  from utf8_step_consumes[OF this] have "0 < y" and "y \<le> length bs"
    by simp_all
  then show "(drop y bs, bs) \<in> measure length"
    by simp
qed

declare utf8_decode.simps [simp del]

text \<open>
  \<^verbatim>\<open>s[a:b]\<close> for non-negative \<^verbatim>\<open>a\<close>, \<^verbatim>\<open>b\<close> (tree-sitter byte offsets are unsigned):
  both ends are clamped to the length, and the result is empty when \<^verbatim>\<open>b <= a\<close>.
\<close>

definition py_slice :: "'a list \<Rightarrow> nat \<Rightarrow> nat \<Rightarrow> 'a list" where
  "py_slice s a b = take (b - a) (drop a s)"

text \<open>
  \<^verbatim>\<open>xs[i]\<close>: a negative index counts from the end, an index out of range raises
  \<^verbatim>\<open>IndexError\<close>.
\<close>

definition py_index :: "'a list \<Rightarrow> int \<Rightarrow> error + 'a" where
  "py_index xs i =
     (if 0 \<le> i \<and> i < int (length xs) then Inr (xs ! nat i)
      else if i < 0 \<and> - int (length xs) \<le> i then Inr (xs ! nat (int (length xs) + i))
      else Inl IndexError)"

section \<open>The chunk builder\<close>

text \<open>
  \<^verbatim>\<open>add_chunk\<close> (lines 44-55). The closure variables \<^verbatim>\<open>source_code\<close>, \<^verbatim>\<open>file_name\<close> and
  the list \<^verbatim>\<open>chunks\<close> it appends to are parameters; the new list is returned. Note that
  \<^verbatim>\<open>source_code\<close> is the decoded \<^verbatim>\<open>str\<close> and is sliced with the node's byte offsets.
\<close>

definition add_chunk ::
  "pystr \<Rightarrow> string \<Rightarrow> chunk list \<Rightarrow> nat \<Rightarrow> nat \<Rightarrow> point \<Rightarrow> point \<Rightarrow> string \<Rightarrow> chunk list" where
  "add_chunk source_code file_name chunks sb eb sp ep chunk_type =
     chunks @
       [\<lparr>content = py_slice source_code sb eb,
         metadata = \<lparr>md_id = length chunks, md_type = chunk_type,
                     md_start_point = sp, md_end_point = ep,
                     md_file_name = file_name\<rparr>\<rparr>]"

text \<open>
  The inner \<^verbatim>\<open>while\<close> of \<^verbatim>\<open>process_nodes\<close> (lines 76-86). The state is the cursor
  \<^verbatim>\<open>i\<close>, \<^verbatim>\<open>current_chunk_nodes\<close> and \<^verbatim>\<open>current_chunk_size\<close>; it is returned when the loop
  condition fails.
\<close>

function inner_loop ::
  "node list \<Rightarrow> nat \<Rightarrow> node list \<Rightarrow> nat \<Rightarrow> error + (nat \<times> node list \<times> nat)" where
  "inner_loop nodes i current_chunk_nodes current_chunk_size =
     (if current_chunk_size < MIN_CHUNK_SIZE \<and> i < length nodes then
        (case py_index nodes (int i) of
           Inl e \<Rightarrow> Inl e
         | Inr next_node \<Rightarrow>
             (case utf8_decode (node_text next_node) of
                Inl e \<Rightarrow>
                  if e = UnicodeDecodeError
                  then inner_loop nodes (i + 1) current_chunk_nodes current_chunk_size
                  else Inl e
              | Inr s \<Rightarrow>
                  inner_loop nodes (i + 1) (current_chunk_nodes @ [next_node])
                    (current_chunk_size + length s)))
      else Inr (i, current_chunk_nodes, current_chunk_size))"
  by pat_completeness auto
termination
  by (relation "measure (\<lambda>(nodes, i, cn, cs). length nodes - i)") auto

declare inner_loop.simps [simp del]

text \<open>
  Lines 88-93: the accumulated nodes, when there are any, become one chunk of type
  \<^verbatim>\<open>"mix"\<close> from the first node's start to the last node's end.
\<close>

definition flush_chunk ::
  "pystr \<Rightarrow> string \<Rightarrow> node list \<Rightarrow> chunk list \<Rightarrow> error + chunk list" where
  "flush_chunk source_code file_name current_chunk_nodes chunks =
     (if current_chunk_nodes \<noteq> [] then
        (case py_index current_chunk_nodes 0 of
           Inl e \<Rightarrow> Inl e
         | Inr first_node \<Rightarrow>
             (case py_index current_chunk_nodes (- 1) of
                Inl e \<Rightarrow> Inl e
              | Inr last_node \<Rightarrow>
                  Inr (add_chunk source_code file_name chunks
                         (start_byte first_node) (end_byte last_node)
                         (start_point first_node) (end_point last_node) ''mix'')))
      else Inr chunks)"

lemma inner_loop_cursor:
  "inner_loop nodes i cn cs = Inr (i', cn', cs') \<Longrightarrow> i \<le> i'"
proof (induction nodes i cn cs rule: inner_loop.induct)
  case (1 nodes i cn cs)
  show ?case
  proof (cases "cs < MIN_CHUNK_SIZE \<and> i < length nodes")
    case False
    with "1.prems" show ?thesis by (simp add: inner_loop.simps)
  next
    case True
    then obtain nd where nd: "py_index nodes (int i) = Inr nd"
      by (auto simp: py_index_def)
    show ?thesis
    proof (cases "utf8_decode (node_text nd)")
      case (Inl e)
      with "1.prems" True nd have e: "e = UnicodeDecodeError"
        and r: "inner_loop nodes (i + 1) cn cs = Inr (i', cn', cs')"
        by (auto simp: inner_loop.simps[of nodes i] split: if_splits)
      from "1.IH"(1)[OF True nd Inl e r] show ?thesis by simp
    next
      case (Inr s)
      with "1.prems" True nd
      have r: "inner_loop nodes (i + 1) (cn @ [nd]) (cs + length s) = Inr (i', cn', cs')"
        by (simp add: inner_loop.simps[of nodes i])
      from "1.IH"(2)[OF True nd Inr r] show ?thesis by simp
    qed
  qed
qed

lemma size_children_nth:
  "i < length nodes \<Longrightarrow> size_list size (children (nodes ! i)) < size_list size nodes"
proof -
  assume i: "i < length nodes"
  have "size_list size (children (nodes ! i)) < size (nodes ! i)"
    by (cases "nodes ! i") simp
  also have "size (nodes ! i) \<le> size_list size nodes"
    using i by (intro size_list_estimation'[of "nodes ! i"]) simp_all
  finally show ?thesis .
qed

text \<open>
  \<^verbatim>\<open>process_nodes\<close> (lines 57-102): the outer \<^verbatim>\<open>while\<close>, with the local variables
  \<^verbatim>\<open>i\<close>, \<^verbatim>\<open>current_chunk_nodes\<close>, \<^verbatim>\<open>current_chunk_size\<close> and the shared list \<^verbatim>\<open>chunks\<close>
  as its state. A recursive call starts a fresh loop on the node's children and hands
  the grown list back. The depth of the recursion is not bounded in this function; the
  section on recursion depth repeats it with the interpreter's bound on nested calls.
\<close>

function process_loop ::
  "pystr \<Rightarrow> string \<Rightarrow> node list \<Rightarrow> nat \<Rightarrow> node list \<Rightarrow> nat \<Rightarrow> chunk list
     \<Rightarrow> error + chunk list" where
  "process_loop source_code file_name nodes i current_chunk_nodes current_chunk_size chunks =
     (if i < length nodes then
        (case py_index nodes (int i) of
           Inl e \<Rightarrow> Inl e
         | Inr node \<Rightarrow>
             (case utf8_decode (node_text node) of
                Inl e \<Rightarrow>
                  if e = UnicodeDecodeError
                  then process_loop source_code file_name nodes (i + 1)
                         current_chunk_nodes current_chunk_size chunks
                  else Inl e
              | Inr s \<Rightarrow>
                  if current_chunk_size + length s < MIN_CHUNK_SIZE then
                    (case inner_loop nodes (i + 1) (current_chunk_nodes @ [node])
                            (current_chunk_size + length s) of
                       Inl e \<Rightarrow> Inl e
                     | Inr (i', nodes', size') \<Rightarrow>
                         (case flush_chunk source_code file_name nodes' chunks of
                            Inl e \<Rightarrow> Inl e
                          | Inr chunks' \<Rightarrow>
                              process_loop source_code file_name nodes i' [] 0 chunks'))
                  else if length s > MAX_CHUNK_SIZE \<and> length (children node) > 0 then
                    (case process_loop source_code file_name (children node) 0 [] 0 chunks of
                       Inl e \<Rightarrow> Inl e
                     | Inr chunks' \<Rightarrow>
                         process_loop source_code file_name nodes (i + 1)
                           current_chunk_nodes current_chunk_size chunks')
                  else
                    process_loop source_code file_name nodes (i + 1)
                      current_chunk_nodes current_chunk_size
                      (add_chunk source_code file_name chunks
                         (start_byte node) (end_byte node)
                         (start_point node) (end_point node) (node_type node))))
      else Inr chunks)"
  by pat_completeness auto
termination
  by (relation "measures
         [\<lambda>(src, fname, nodes, i, cn, cs, chunks). size_list size nodes,
          \<lambda>(src, fname, nodes, i, cn, cs, chunks). length nodes - i]")
     (auto dest!: inner_loop_cursor simp: py_index_def size_children_nth)

declare process_loop.simps [simp del]

definition process_nodes :: "pystr \<Rightarrow> string \<Rightarrow> node list \<Rightarrow> chunk list \<Rightarrow> error + chunk list" where
  "process_nodes source_code file_name nodes chunks =
     process_loop source_code file_name nodes 0 [] 0 chunks"

text \<open>
  \<^verbatim>\<open>get_chunks\<close> (lines 36-105). \<open>Inr\<close> is the returned list, \<open>Inl\<close> an exception that
  leaves the call.
\<close>

definition get_chunks :: "node \<Rightarrow> string \<Rightarrow> error + chunk list" where
  "get_chunks root_node file_name =
     (case utf8_decode (node_text root_node) of
        Inl e \<Rightarrow> if e = UnicodeDecodeError then Inr [] else Inl e
      | Inr source_code \<Rightarrow> process_nodes source_code file_name (children root_node) [])"

section \<open>The loops as recursion over the remaining siblings\<close>

text \<open>
  For the proofs the two loops are characterised by functions on the list of siblings that
  the cursor has not passed yet. \<open>node_size\<close> is the decoded character length, when the
  text decodes; \<open>merge_run\<close> is the inner loop, \<open>process_list\<close> the outer one. The lemmas
  \<open>inner_loop_merge_run\<close> and \<open>process_loop_list\<close> below show that the loops of the code
  compute exactly these functions and that neither \<^verbatim>\<open>UnicodeDecodeError\<close> nor
  \<^verbatim>\<open>IndexError\<close> leaves them.
\<close>

definition node_size :: "node \<Rightarrow> nat option" where
  "node_size n = (case utf8_decode (node_text n) of Inl e \<Rightarrow> None | Inr s \<Rightarrow> Some (length s))"

fun merge_run :: "node list \<Rightarrow> node list \<Rightarrow> nat \<Rightarrow> node list \<times> node list \<times> nat" where
  "merge_run [] cn cs = ([], cn, cs)"
| "merge_run (n # ns) cn cs =
     (if cs < MIN_CHUNK_SIZE then
        (case node_size n of
           None \<Rightarrow> merge_run ns cn cs
         | Some k \<Rightarrow> merge_run ns (cn @ [n]) (cs + k))
      else (n # ns, cn, cs))"

definition mix_chunk :: "pystr \<Rightarrow> string \<Rightarrow> node list \<Rightarrow> chunk list \<Rightarrow> chunk list" where
  "mix_chunk src fname cn chunks =
     add_chunk src fname chunks (start_byte (hd cn)) (end_byte (last cn))
       (start_point (hd cn)) (end_point (last cn)) ''mix''"

definition own_chunk :: "pystr \<Rightarrow> string \<Rightarrow> node \<Rightarrow> chunk list \<Rightarrow> chunk list" where
  "own_chunk src fname n chunks =
     add_chunk src fname chunks (start_byte n) (end_byte n)
       (start_point n) (end_point n) (node_type n)"

lemma merge_run_suffix:
  "merge_run ns cn cs = (rest, cn', cs') \<Longrightarrow> \<exists>k. k \<le> length ns \<and> rest = drop k ns"
proof (induction ns arbitrary: cn cs)
  case Nil
  then show ?case by simp
next
  case (Cons n ns)
  show ?case
  proof (cases "cs < MIN_CHUNK_SIZE")
    case False
    with Cons.prems have "rest = drop 0 (n # ns)" by simp
    then show ?thesis by blast
  next
    case True
    with Cons.prems have "\<exists>cn2 cs2. merge_run ns cn2 cs2 = (rest, cn', cs')"
      by (auto split: option.splits)
    then obtain k where "k \<le> length ns" "rest = drop k ns"
      using Cons.IH by blast
    then have "Suc k \<le> length (n # ns) \<and> rest = drop (Suc k) (n # ns)" by simp
    then show ?thesis by blast
  qed
qed

lemma size_list_drop_le: "size_list f (drop k xs) \<le> size_list f xs"
proof (induction xs arbitrary: k)
  case Nil
  then show ?case by simp
next
  case (Cons x xs)
  show ?case
  proof (cases k)
    case 0
    then show ?thesis by simp
  next
    case (Suc j)
    have "size_list f (drop j xs) \<le> size_list f xs" by (rule Cons.IH)
    with Suc show ?thesis by simp
  qed
qed

lemma size_children_less: "size_list size (children n) < size n"
  by (cases n) simp

lemma merge_run_size:
  "merge_run ns cn cs = (rest, cn', cs') \<Longrightarrow> size_list size rest \<le> size_list size ns"
  using merge_run_suffix size_list_drop_le by blast

function process_list :: "pystr \<Rightarrow> string \<Rightarrow> node list \<Rightarrow> chunk list \<Rightarrow> chunk list" where
  "process_list src fname [] chunks = chunks"
| "process_list src fname (n # ns) chunks =
     (case node_size n of
        None \<Rightarrow> process_list src fname ns chunks
      | Some k \<Rightarrow>
          if k < MIN_CHUNK_SIZE then
            (case merge_run ns [n] k of
               (rest, cn, cs) \<Rightarrow> process_list src fname rest (mix_chunk src fname cn chunks))
          else if k > MAX_CHUNK_SIZE \<and> children n \<noteq> [] then
            process_list src fname ns (process_list src fname (children n) chunks)
          else process_list src fname ns (own_chunk src fname n chunks))"
  by pat_completeness auto
termination
proof (relation "measure (\<lambda>(src, fname, ns, chunks). size_list size ns)", goal_cases)
  case 1
  show ?case by simp
next
  case 2
  then show ?case by simp
next
  case (3 src fname n ns chunks k rest pr')
  then have "\<exists>cn cs. merge_run ns [n] k = (rest, cn, cs)" by (cases pr') (metis prod.inject)
  then have "size_list size rest \<le> size_list size ns" using merge_run_size by blast
  then show ?case by simp
next
  case (4 src fname n ns chunks k)
  have "size_list size (children n) < size n" by (rule size_children_less)
  then show ?case by simp
next
  case 5
  then show ?case by simp
next
  case 6
  then show ?case by simp
qed

lemma utf8_decode_error: "utf8_decode bs = Inl e \<Longrightarrow> e = UnicodeDecodeError"
proof (induction bs arbitrary: e rule: utf8_decode.induct)
  case (1 bs)
  show ?case
  proof (cases "bs = []")
    case True
    with "1.prems" show ?thesis by (simp add: utf8_decode.simps[of "[]"])
  next
    case ne: False
    show ?thesis
    proof (cases "utf8_step bs")
      case None
      with "1.prems" ne show ?thesis by (simp add: utf8_decode.simps[of bs])
    next
      case (Some p)
      obtain cp k where p: "p = (cp, k)" by (cases p)
      with "1.prems" ne Some have "utf8_decode (drop k bs) = Inl e"
        by (simp add: utf8_decode.simps[of bs] split: sum.splits)
      with "1.IH"[OF ne Some p[symmetric]] show ?thesis by simp
    qed
  qed
qed

lemma py_index_nth: "i < length xs \<Longrightarrow> py_index xs (int i) = Inr (xs ! i)"
  by (simp add: py_index_def)

lemma py_index_first: "xs \<noteq> [] \<Longrightarrow> py_index xs 0 = Inr (hd xs)"
  by (cases xs) (simp_all add: py_index_def)

lemma py_index_last: "xs \<noteq> [] \<Longrightarrow> py_index xs (- 1) = Inr (last xs)"
proof -
  assume ne: "xs \<noteq> []"
  then have len: "1 \<le> length xs" by (cases xs) simp_all
  then have "nat (int (length xs) + - 1) = length xs - 1" by simp
  with ne len show ?thesis by (simp add: py_index_def last_conv_nth)
qed

lemma flush_chunk_nonempty:
  "cn \<noteq> [] \<Longrightarrow> flush_chunk src fname cn chunks = Inr (mix_chunk src fname cn chunks)"
  by (simp add: flush_chunk_def mix_chunk_def py_index_first py_index_last)

lemma node_size_None: "utf8_decode (node_text n) = Inl e \<Longrightarrow> node_size n = None"
  by (simp add: node_size_def)

lemma node_size_Some: "utf8_decode (node_text n) = Inr s \<Longrightarrow> node_size n = Some (length s)"
  by (simp add: node_size_def)

lemma merge_run_done: "\<not> cs < MIN_CHUNK_SIZE \<Longrightarrow> merge_run ns cn cs = (ns, cn, cs)"
  by (cases ns) simp_all

lemma merge_run_extends:
  "merge_run ns cn cs = (rest, cn', cs') \<Longrightarrow> \<exists>ys. cn' = cn @ ys"
proof (induction ns arbitrary: cn cs)
  case Nil
  then show ?case by simp
next
  case (Cons n ns)
  show ?case
  proof (cases "cs < MIN_CHUNK_SIZE")
    case False
    with Cons.prems show ?thesis by simp
  next
    case True
    show ?thesis
    proof (cases "node_size n")
      case None
      with True Cons.prems have "merge_run ns cn cs = (rest, cn', cs')" by simp
      then show ?thesis by (rule Cons.IH)
    next
      case (Some k)
      with True Cons.prems have "merge_run ns (cn @ [n]) (cs + k) = (rest, cn', cs')" by simp
      then have "\<exists>ys. cn' = (cn @ [n]) @ ys" by (rule Cons.IH)
      then show ?thesis by auto
    qed
  qed
qed

lemma inner_loop_merge_run:
  "i \<le> length nodes \<Longrightarrow>
   \<exists>i'. i \<le> i' \<and> i' \<le> length nodes
      \<and> inner_loop nodes i cn cs = Inr (i', snd (merge_run (drop i nodes) cn cs))
      \<and> fst (merge_run (drop i nodes) cn cs) = drop i' nodes"
proof (induction nodes i cn cs rule: inner_loop.induct)
  case (1 nodes i cn cs)
  show ?case
  proof (cases "cs < MIN_CHUNK_SIZE \<and> i < length nodes")
    case False
    have il: "inner_loop nodes i cn cs = Inr (i, cn, cs)"
      using False by (auto simp add: inner_loop.simps[of nodes i])
    have "merge_run (drop i nodes) cn cs = (drop i nodes, cn, cs)"
    proof (cases "cs < MIN_CHUNK_SIZE")
      case True
      with False "1.prems" have "drop i nodes = []" by simp
      then show ?thesis by simp
    next
      case False
      then show ?thesis by (rule merge_run_done)
    qed
    with il "1.prems" show ?thesis by simp
  next
    case True
    then have small: "cs < MIN_CHUNK_SIZE" and i: "i < length nodes" by simp_all
    have idx: "py_index nodes (int i) = Inr (nodes ! i)" using i by (rule py_index_nth)
    have dr: "drop i nodes = nodes ! i # drop (i + 1) nodes"
      using i by (simp add: Cons_nth_drop_Suc)
    have le: "i + 1 \<le> length nodes" using i by simp
    show ?thesis
    proof (cases "utf8_decode (node_text (nodes ! i))")
      case (Inl e)
      then have e: "e = UnicodeDecodeError" by (rule utf8_decode_error)
      have il: "inner_loop nodes i cn cs = inner_loop nodes (i + 1) cn cs"
        using True idx Inl e by (simp add: inner_loop.simps[of nodes i])
      have mr: "merge_run (drop i nodes) cn cs = merge_run (drop (i + 1) nodes) cn cs"
        using small node_size_None[OF Inl] by (simp add: dr)
      from "1.IH"(1)[OF True idx Inl e le] obtain i' where
        "i + 1 \<le> i'" "i' \<le> length nodes"
        "inner_loop nodes (i + 1) cn cs = Inr (i', snd (merge_run (drop (i + 1) nodes) cn cs))"
        "fst (merge_run (drop (i + 1) nodes) cn cs) = drop i' nodes"
        by blast
      then have "i \<le> i' \<and> i' \<le> length nodes
          \<and> inner_loop nodes i cn cs = Inr (i', snd (merge_run (drop i nodes) cn cs))
          \<and> fst (merge_run (drop i nodes) cn cs) = drop i' nodes"
        using il mr by simp
      then show ?thesis by blast
    next
      case (Inr s)
      have il: "inner_loop nodes i cn cs
                  = inner_loop nodes (i + 1) (cn @ [nodes ! i]) (cs + length s)"
        using True idx Inr by (simp add: inner_loop.simps[of nodes i])
      have mr: "merge_run (drop i nodes) cn cs
                  = merge_run (drop (i + 1) nodes) (cn @ [nodes ! i]) (cs + length s)"
        using small node_size_Some[OF Inr] by (simp add: dr)
      from "1.IH"(2)[OF True idx Inr le] obtain i' where
        "i + 1 \<le> i'" "i' \<le> length nodes"
        "inner_loop nodes (i + 1) (cn @ [nodes ! i]) (cs + length s)
           = Inr (i', snd (merge_run (drop (i + 1) nodes) (cn @ [nodes ! i]) (cs + length s)))"
        "fst (merge_run (drop (i + 1) nodes) (cn @ [nodes ! i]) (cs + length s)) = drop i' nodes"
        by blast
      then have "i \<le> i' \<and> i' \<le> length nodes
          \<and> inner_loop nodes i cn cs = Inr (i', snd (merge_run (drop i nodes) cn cs))
          \<and> fst (merge_run (drop i nodes) cn cs) = drop i' nodes"
        using il mr by simp
      then show ?thesis by blast
    qed
  qed
qed

lemma process_loop_list:
  "drop i nodes = ns \<Longrightarrow> i \<le> length nodes \<Longrightarrow>
   process_loop src fname nodes i [] 0 chunks = Inr (process_list src fname ns chunks)"
proof (induction src fname ns chunks arbitrary: nodes i rule: process_list.induct)
  case (1 src fname chunks)
  then have "\<not> i < length nodes" by simp
  then show ?case by (simp add: process_loop.simps[of src fname nodes i])
next
  case (2 src fname n ns chunks)
  from "2.prems" have i: "i < length nodes"
    by (metis drop_eq_Nil2 list.distinct(1) not_le_imp_less)
  have ni: "nodes ! i = n" and dr: "drop (i + 1) nodes = ns"
    using "2.prems"(1) i by (simp_all add: Cons_nth_drop_Suc[symmetric])
  have idx: "py_index nodes (int i) = Inr n" using py_index_nth[OF i] ni by simp
  have le: "i + 1 \<le> length nodes" using i by simp
  show ?case
  proof (cases "utf8_decode (node_text n)")
    case (Inl e)
    then have e: "e = UnicodeDecodeError" by (rule utf8_decode_error)
    have none: "node_size n = None" using Inl by (rule node_size_None)
    have "process_loop src fname nodes i [] 0 chunks
            = process_loop src fname nodes (i + 1) [] 0 chunks"
      using i idx Inl e by (simp add: process_loop.simps[of src fname nodes i])
    also have "\<dots> = Inr (process_list src fname ns chunks)"
      using "2.IH"(1)[OF none dr le] .
    finally show ?thesis using none by simp
  next
    case (Inr s)
    have some: "node_size n = Some (length s)" using Inr by (rule node_size_Some)
    show ?thesis
    proof (cases "length s < MIN_CHUNK_SIZE")
      case True
      obtain rest cn cs where mr: "merge_run ns [n] (length s) = (rest, cn, cs)"
        by (cases "merge_run ns [n] (length s)")
      from inner_loop_merge_run[OF le, of "[n]" "length s"] mr dr obtain i' where
        i': "i + 1 \<le> i'" "i' \<le> length nodes"
        "inner_loop nodes (i + 1) [n] (length s) = Inr (i', cn, cs)"
        "rest = drop i' nodes"
        by auto
      from merge_run_extends[OF mr] have ne: "cn \<noteq> []" by auto
      have "process_loop src fname nodes i [] 0 chunks
              = process_loop src fname nodes i' [] 0 (mix_chunk src fname cn chunks)"
        using i idx Inr True i'(3) flush_chunk_nonempty[OF ne]
        by (simp add: process_loop.simps[of src fname nodes i])
      also have "\<dots> = Inr (process_list src fname rest (mix_chunk src fname cn chunks))"
        using "2.IH"(2)[OF some True mr[symmetric] refl i'(4)[symmetric] i'(2)] .
      finally show ?thesis using some True mr by simp
    next
      case notsmall: False
      show ?thesis
      proof (cases "length s > MAX_CHUNK_SIZE \<and> children n \<noteq> []")
        case True
        have kids: "process_loop src fname (children n) 0 [] 0 chunks
                      = Inr (process_list src fname (children n) chunks)"
          using "2.IH"(3)[OF some notsmall True, of 0 "children n"] by simp
        have "process_loop src fname nodes i [] 0 chunks
                = process_loop src fname nodes (i + 1) [] 0
                    (process_list src fname (children n) chunks)"
          using i idx Inr notsmall True kids
          by (simp add: process_loop.simps[of src fname nodes i])
        also have "\<dots> = Inr (process_list src fname ns
                               (process_list src fname (children n) chunks))"
          using "2.IH"(4)[OF some notsmall True dr le] .
        finally show ?thesis using some notsmall True by simp
      next
        case False
        have "process_loop src fname nodes i [] 0 chunks
                = process_loop src fname nodes (i + 1) [] 0 (own_chunk src fname n chunks)"
          using i idx Inr notsmall False
          by (auto simp add: process_loop.simps[of src fname nodes i] own_chunk_def)
        also have "\<dots> = Inr (process_list src fname ns (own_chunk src fname n chunks))"
          using "2.IH"(5)[OF some notsmall False dr le] .
        finally show ?thesis using some notsmall False by auto
      qed
    qed
  qed
qed

lemma process_nodes_list:
  "process_nodes src fname ns chunks = Inr (process_list src fname ns chunks)"
  unfolding process_nodes_def by (rule process_loop_list) simp_all

lemma get_chunks_list:
  "get_chunks root_node fname =
     Inr (case utf8_decode (node_text root_node) of
            Inl e \<Rightarrow> []
          | Inr src \<Rightarrow> process_list src fname (children root_node) [])"
proof (cases "utf8_decode (node_text root_node)")
  case (Inl e)
  then have "e = UnicodeDecodeError" by (rule utf8_decode_error)
  with Inl show ?thesis by (simp add: get_chunks_def)
next
  case (Inr src)
  then show ?thesis by (simp add: get_chunks_def process_nodes_list)
qed


section \<open>Evaluation and invariants\<close>

lemma utf8_decode_Nil: "utf8_decode [] = Inr []"
  by (simp add: utf8_decode.simps[of "[]"])

lemma utf8_decode_Cons:
  "utf8_decode (b # bs) =
     (case utf8_step (b # bs) of
        None \<Rightarrow> Inl UnicodeDecodeError
      | Some (cp, k) \<Rightarrow>
          (case utf8_decode (drop k (b # bs)) of
             Inl e \<Rightarrow> Inl e
           | Inr cps \<Rightarrow> Inr (cp # cps)))"
  by (simp add: utf8_decode.simps[of "b # bs"])

lemmas utf8_eval = utf8_decode_Nil utf8_decode_Cons is_cont_def cont_bits_def

lemma utf8_decode_ascii:
  "\<forall>b \<in> set bs. b < 0x80 \<Longrightarrow> utf8_decode bs = Inr (map unat bs)"
  by (induction bs) (simp_all add: utf8_decode_Nil utf8_decode_Cons)

lemma add_chunk_ids:
  "map (md_id \<circ> metadata) chunks = [0..<length chunks] \<Longrightarrow>
   map (md_id \<circ> metadata) (add_chunk src fname chunks sb eb sp ep ty)
     = [0..<length (add_chunk src fname chunks sb eb sp ep ty)]"
  by (simp add: add_chunk_def)

lemma process_list_ids:
  "map (md_id \<circ> metadata) chunks = [0..<length chunks] \<Longrightarrow>
   map (md_id \<circ> metadata) (process_list src fname ns chunks)
     = [0..<length (process_list src fname ns chunks)]"
proof (induction src fname ns chunks rule: process_list.induct)
  case (1 src fname chunks)
  then show ?case by simp
next
  case (2 src fname n ns chunks)
  show ?case
  proof (cases "node_size n")
    case None
    with 2 show ?thesis by simp
  next
    case (Some k)
    show ?thesis
    proof (cases "k < MIN_CHUNK_SIZE")
      case True
      obtain rest cn cs where mr: "merge_run ns [n] k = (rest, cn, cs)"
        by (cases "merge_run ns [n] k")
      have "map (md_id \<circ> metadata) (mix_chunk src fname cn chunks)
              = [0..<length (mix_chunk src fname cn chunks)]"
        unfolding mix_chunk_def using "2.prems" by (rule add_chunk_ids)
      from "2.IH"(2)[OF Some True mr[symmetric] refl this] Some True mr
      show ?thesis by simp
    next
      case notsmall: False
      show ?thesis
      proof (cases "k > MAX_CHUNK_SIZE \<and> children n \<noteq> []")
        case True
        from "2.IH"(4)[OF Some notsmall True "2.IH"(3)[OF Some notsmall True "2.prems"]]
        show ?thesis using Some notsmall True by simp
      next
        case False
        have "map (md_id \<circ> metadata) (own_chunk src fname n chunks)
                = [0..<length (own_chunk src fname n chunks)]"
          unfolding own_chunk_def using "2.prems" by (rule add_chunk_ids)
        from "2.IH"(5)[OF Some notsmall False this] Some notsmall False
        show ?thesis by auto
      qed
    qed
  qed
qed

section \<open>Example trees\<close>

text \<open>
  \<open>ascii_leaf sb k ty\<close> is a leaf of \<open>k\<close> bytes \<^verbatim>\<open>a\<close> that starts at byte \<open>sb\<close> of the first
  line; \<open>ascii_node\<close> is the same span with children.
\<close>

definition ascii_node :: "nat \<Rightarrow> nat \<Rightarrow> string \<Rightarrow> node list \<Rightarrow> node" where
  "ascii_node sb k ty kids = Node (replicate k 0x61) sb (sb + k) (0, sb) (0, sb + k) ty kids"

definition ascii_leaf :: "nat \<Rightarrow> nat \<Rightarrow> string \<Rightarrow> node" where
  "ascii_leaf sb k ty = ascii_node sb k ty []"

lemma utf8_decode_replicate_ascii:
  "utf8_decode (replicate k 0x61) = Inr (replicate k 97)"
  using utf8_decode_ascii[of "replicate k 0x61"] by simp

lemmas example_eval =
  ascii_node_def ascii_leaf_def utf8_decode_replicate_ascii node_size_def
  mix_chunk_def own_chunk_def add_chunk_def py_slice_def
  MIN_CHUNK_SIZE_def MAX_CHUNK_SIZE_def

section \<open>Chunk ids\<close>

text \<open>
  C6. The ids of the chunks that one \<^verbatim>\<open>get_chunks\<close> call returns are, in emission order,
  exactly \<open>0, 1, 2, \<dots>\<close>: strictly increasing, without gaps and unique, whatever the depth
  of the recursion.
\<close>

theorem chunk_ids_sequential:
  "\<exists>chunks. get_chunks root_node file_name = Inr chunks
     \<and> map (md_id \<circ> metadata) chunks = [0..<length chunks]"
proof (cases "utf8_decode (node_text root_node)")
  case (Inl e)
  then show ?thesis by (simp add: get_chunks_list)
next
  case (Inr src)
  have "map (md_id \<circ> metadata) (process_list src file_name (children root_node) [])
          = [0..<length (process_list src file_name (children root_node) [])]"
    by (rule process_list_ids) simp
  with Inr show ?thesis by (simp add: get_chunks_list)
qed

definition c6_root :: node where
  "c6_root = ascii_node 0 4400 ''module''
     [ascii_leaf 0 1100 ''import_statement'',
      ascii_node 1100 2200 ''class_definition''
        [ascii_leaf 1100 1100 ''function_definition'',
         ascii_leaf 2200 1100 ''function_definition''],
      ascii_leaf 3300 1100 ''expression_statement'']"

theorem chunk_ids_sequential_witness:
  "\<exists>chunks. get_chunks c6_root ''a.py'' = Inr chunks
     \<and> map (md_id \<circ> metadata) chunks = [0..<length chunks]"
  using chunk_ids_sequential[of c6_root "''a.py''"] .

section \<open>Decode failure of the root\<close>

text \<open>
  C7. If the text of the root node does not decode as UTF-8, \<^verbatim>\<open>get_chunks\<close> returns the
  empty list of chunks before any chunking, and raises nothing.
\<close>

theorem root_decode_failure:
  "utf8_decode (node_text root_node) = Inl UnicodeDecodeError \<Longrightarrow>
   get_chunks root_node file_name = Inr []"
  by (simp add: get_chunks_def)

definition c7_root :: node where
  "c7_root = Node [0x61, 0xFF] 0 2 (0, 0) (0, 2) ''module''
     [Node [0x61] 0 1 (0, 0) (0, 1) ''identifier'' []]"

theorem root_decode_failure_witness:
  "utf8_decode (node_text c7_root) = Inl UnicodeDecodeError
     \<and> get_chunks c7_root ''a.py'' = Inr []"
proof -
  have h: "utf8_decode (node_text c7_root) = Inl UnicodeDecodeError"
    by (simp add: c7_root_def utf8_eval)
  from h root_decode_failure[OF h, of "''a.py''"] show ?thesis by simp
qed

section \<open>A single small node\<close>

text \<open>
  C10. A sibling list that consists of exactly one node, whose text decodes to fewer than
  \<^verbatim>\<open>MIN_CHUNK_SIZE\<close> characters, yields exactly one new chunk, and its type is the literal
  \<^verbatim>\<open>"mix"\<close>, not the node's own type, although nothing was merged.
\<close>

theorem single_small_node_is_mix:
  "utf8_decode (node_text n) = Inr s \<Longrightarrow> length s < MIN_CHUNK_SIZE \<Longrightarrow>
   process_nodes source_code file_name [n] chunks =
     Inr (chunks @
       [\<lparr>content = py_slice source_code (start_byte n) (end_byte n),
         metadata = \<lparr>md_id = length chunks, md_type = ''mix'',
                     md_start_point = start_point n, md_end_point = end_point n,
                     md_file_name = file_name\<rparr>\<rparr>])"
  by (simp add: process_nodes_list node_size_def mix_chunk_def add_chunk_def)

definition c10_node :: node where
  "c10_node = Node [0x78, 0x3D, 0x31] 0 3 (0, 0) (0, 3) ''expression_statement'' []"

theorem single_small_node_is_mix_witness:
  "utf8_decode (node_text c10_node) = Inr [120, 61, 49]
     \<and> length [120, 61, 49 :: nat] < MIN_CHUNK_SIZE
     \<and> process_nodes [120, 61, 49] ''a.py'' [c10_node] [] =
         Inr [\<lparr>content = [120, 61, 49],
               metadata = \<lparr>md_id = 0, md_type = ''mix'',
                           md_start_point = (0, 0), md_end_point = (0, 3),
                           md_file_name = ''a.py''\<rparr>\<rparr>]"
proof -
  have h1: "utf8_decode (node_text c10_node) = Inr [120, 61, 49]"
    by (simp add: c10_node_def utf8_eval)
  have h2: "length [120, 61, 49 :: nat] < MIN_CHUNK_SIZE"
    by (simp add: MIN_CHUNK_SIZE_def)
  from single_small_node_is_mix[OF h1 h2, of "[120, 61, 49]" "''a.py''" "[]"]
  have "process_nodes [120, 61, 49] ''a.py'' [c10_node] [] =
         Inr [\<lparr>content = [120, 61, 49],
               metadata = \<lparr>md_id = 0, md_type = ''mix'',
                           md_start_point = (0, 0), md_end_point = (0, 3),
                           md_file_name = ''a.py''\<rparr>\<rparr>]"
    by (simp add: c10_node_def py_slice_def)
  with h1 h2 show ?thesis by simp
qed


section \<open>Small siblings in front of a large node\<close>

text \<open>
  The inner loop (lines 76-86) appends every decodable sibling it meets while the
  accumulated size is below \<^verbatim>\<open>MIN_CHUNK_SIZE\<close>; it does not look at the size or the children
  of the node it appends. A large node that follows small siblings is therefore merged
  into their \<^verbatim>\<open>"mix"\<close> chunk.
\<close>

definition c1_child3 :: node where
  "c1_child3 = ascii_node 600 3000 ''class_definition''
     [ascii_leaf 600 1500 ''function_definition'',
      ascii_leaf 2100 1500 ''decorated_definition'']"

definition c1_root :: node where
  "c1_root = ascii_node 0 3600 ''module''
     [ascii_leaf 0 300 ''import_statement'',
      ascii_leaf 300 300 ''expression_statement'',
      c1_child3]"

text \<open>
  C1 as stated fails. On the root of the example (children of 300, 300 and 3000
  characters, the third with two leaf children of 1500 characters each) \<^verbatim>\<open>get_chunks\<close>
  returns one chunk, not three: the \<^verbatim>\<open>"mix"\<close> chunk covers all three children and neither
  grandchild gets a chunk.
\<close>

theorem end_to_end_example_counterexample:
  "get_chunks c1_root ''a.py'' =
     Inr [\<lparr>content = replicate 3600 97,
           metadata = \<lparr>md_id = 0, md_type = ''mix'',
                       md_start_point = (0, 0), md_end_point = (0, 3600),
                       md_file_name = ''a.py''\<rparr>\<rparr>]"
  by (simp add: get_chunks_list c1_root_def c1_child3_def example_eval)

text \<open>
  C1, amended. For a root whose text decodes and whose children have character lengths 300,
  300 and 3000, \<^verbatim>\<open>get_chunks\<close> returns exactly one chunk, with id 0 and type \<^verbatim>\<open>"mix"\<close>,
  that runs from the start of the first child to the end of the third; the children of
  the third child play no part.
\<close>

theorem end_to_end_example_one_mix_chunk:
  assumes "utf8_decode (node_text root_node) = Inr source_code"
    and "children root_node = [n1, n2, n3]"
    and "utf8_decode (node_text n1) = Inr s1" and "length s1 = 300"
    and "utf8_decode (node_text n2) = Inr s2" and "length s2 = 300"
    and "utf8_decode (node_text n3) = Inr s3" and "length s3 = 3000"
  shows "get_chunks root_node file_name =
     Inr [\<lparr>content = py_slice source_code (start_byte n1) (end_byte n3),
           metadata = \<lparr>md_id = 0, md_type = ''mix'',
                       md_start_point = start_point n1, md_end_point = end_point n3,
                       md_file_name = file_name\<rparr>\<rparr>]"
  using assms
  by (simp add: get_chunks_list node_size_def mix_chunk_def add_chunk_def
      MIN_CHUNK_SIZE_def)

theorem end_to_end_example_one_mix_chunk_witness:
  "utf8_decode (node_text c1_root) = Inr (replicate 3600 97)
   \<and> children c1_root =
       [ascii_leaf 0 300 ''import_statement'', ascii_leaf 300 300 ''expression_statement'',
        c1_child3]
   \<and> utf8_decode (node_text (ascii_leaf 0 300 ''import_statement'')) = Inr (replicate 300 97)
   \<and> length (replicate 300 (97::nat)) = 300
   \<and> utf8_decode (node_text (ascii_leaf 300 300 ''expression_statement''))
       = Inr (replicate 300 97)
   \<and> utf8_decode (node_text c1_child3) = Inr (replicate 3000 97)
   \<and> length (replicate 3000 (97::nat)) = 3000
   \<and> get_chunks c1_root ''a.py'' =
       Inr [\<lparr>content = py_slice (replicate 3600 97)
                         (start_byte (ascii_leaf 0 300 ''import_statement''))
                         (end_byte c1_child3),
             metadata = \<lparr>md_id = 0, md_type = ''mix'',
                         md_start_point = start_point (ascii_leaf 0 300 ''import_statement''),
                         md_end_point = end_point c1_child3,
                         md_file_name = ''a.py''\<rparr>\<rparr>]"
proof -
  have r: "utf8_decode (node_text c1_root) = Inr (replicate 3600 97)"
    by (simp add: c1_root_def example_eval)
  have k: "children c1_root =
       [ascii_leaf 0 300 ''import_statement'', ascii_leaf 300 300 ''expression_statement'',
        c1_child3]"
    by (simp add: c1_root_def ascii_node_def)
  have d1: "utf8_decode (node_text (ascii_leaf 0 300 ''import_statement''))
              = Inr (replicate 300 97)"
    by (simp add: example_eval)
  have d2: "utf8_decode (node_text (ascii_leaf 300 300 ''expression_statement''))
              = Inr (replicate 300 97)"
    by (simp add: example_eval)
  have d3: "utf8_decode (node_text c1_child3) = Inr (replicate 3000 97)"
    by (simp add: c1_child3_def example_eval)
  have l1: "length (replicate 300 (97::nat)) = 300" by simp
  have l3: "length (replicate 3000 (97::nat)) = 3000" by simp
  from end_to_end_example_one_mix_chunk[OF r k d1 l1 d2 l1 d3 l3, of "''a.py''"]
    r k d1 d2 d3 l1 l3
  show ?thesis by simp
qed

section \<open>Siblings that do not decode\<close>

text \<open>
  Both loops step over a node whose text does not decode: the list of chunks is the one
  that the same sibling list without its undecodable nodes gives.
\<close>

definition decodable :: "node \<Rightarrow> bool" where
  "decodable n \<longleftrightarrow> node_size n \<noteq> None"

lemma merge_run_filter:
  "merge_run ns cn cs = (rest, cn', cs') \<Longrightarrow>
   merge_run (filter decodable ns) cn cs = (filter decodable rest, cn', cs')"
proof (induction ns arbitrary: cn cs)
  case Nil
  then show ?case by simp
next
  case (Cons n ns)
  show ?case
  proof (cases "cs < MIN_CHUNK_SIZE")
    case False
    with Cons.prems have "rest = n # ns" "cn' = cn" "cs' = cs" by simp_all
    with False show ?thesis by (simp add: merge_run_done)
  next
    case True
    show ?thesis
    proof (cases "node_size n")
      case None
      with True Cons.prems have "merge_run ns cn cs = (rest, cn', cs')" by simp
      from Cons.IH[OF this] None show ?thesis by (simp add: decodable_def)
    next
      case (Some k)
      with True Cons.prems have "merge_run ns (cn @ [n]) (cs + k) = (rest, cn', cs')" by simp
      from Cons.IH[OF this] Some True show ?thesis by (simp add: decodable_def)
    qed
  qed
qed

lemma process_list_filter:
  "process_list src fname (filter decodable ns) chunks = process_list src fname ns chunks"
proof (induction src fname ns chunks rule: process_list.induct)
  case (1 src fname chunks)
  show ?case by simp
next
  case (2 src fname n ns chunks)
  show ?case
  proof (cases "node_size n")
    case None
    with "2.IH"(1) show ?thesis by (simp add: decodable_def)
  next
    case (Some k)
    then have dec: "filter decodable (n # ns) = n # filter decodable ns"
      by (simp add: decodable_def)
    show ?thesis
    proof (cases "k < MIN_CHUNK_SIZE")
      case True
      obtain rest cn cs where mr: "merge_run ns [n] k = (rest, cn, cs)"
        by (cases "merge_run ns [n] k")
      note mf = merge_run_filter[OF mr]
      from "2.IH"(2)[OF Some True mr[symmetric] refl] Some True mr mf
      show ?thesis by (simp add: dec del: filter.simps)
    next
      case notsmall: False
      show ?thesis
      proof (cases "k > MAX_CHUNK_SIZE \<and> children n \<noteq> []")
        case True
        from "2.IH"(4)[OF Some notsmall True] Some notsmall True
        show ?thesis by (simp add: dec del: filter.simps)
      next
        case False
        from "2.IH"(5)[OF Some notsmall False] Some notsmall False
        show ?thesis by (auto simp add: dec simp del: filter.simps)
      qed
    qed
  qed
qed

definition c5_bad :: node where
  "c5_bad = Node [0xC3] 1 2 (0, 1) (0, 2) ''ERROR'' []"

definition c5_before :: node where
  "c5_before = Node [0x61] 0 1 (0, 0) (0, 1) ''identifier'' []"

definition c5_after :: node where
  "c5_after = Node [0x62] 3 4 (0, 3) (0, 4) ''identifier'' []"

definition c5_root :: node where
  "c5_root = Node [0x61, 0xC3, 0xA9, 0x62] 0 4 (0, 0) (0, 4) ''module''
     [c5_before, c5_bad, c5_after]"

text \<open>
  C5 as stated fails. In the example the middle child (byte 1, columns 1 to 2) does not
  decode while its two neighbours do. It is left out of the accumulator, but the
  \<^verbatim>\<open>"mix"\<close> chunk of the neighbours runs from the first accumulated node's start to the
  last one's end, bytes 0 to 4 and columns 0 to 4: the undecodable node lies inside the
  emitted chunk's span, and the chunk's content holds the character at its position.
\<close>

theorem undecodable_node_inside_span_counterexample:
  "utf8_decode (node_text c5_before) = Inr [97]
   \<and> utf8_decode (node_text c5_bad) = Inl UnicodeDecodeError
   \<and> utf8_decode (node_text c5_after) = Inr [98]
   \<and> start_byte c5_bad = 1 \<and> end_byte c5_bad = 2
   \<and> start_point c5_bad = (0, 1) \<and> end_point c5_bad = (0, 2)
   \<and> get_chunks c5_root ''a.py'' =
       Inr [\<lparr>content = py_slice [97, 233, 98] 0 4,
             metadata = \<lparr>md_id = 0, md_type = ''mix'',
                         md_start_point = (0, 0), md_end_point = (0, 4),
                         md_file_name = ''a.py''\<rparr>\<rparr>]
   \<and> py_slice [97, 233, 98 :: nat] 0 4 = [97, 233, 98]"
  by (simp add: get_chunks_list c5_root_def c5_bad_def c5_before_def c5_after_def
      utf8_eval node_size_def mix_chunk_def add_chunk_def py_slice_def MIN_CHUNK_SIZE_def)

text \<open>
  C5, amended. For every sibling list that contains a node whose text fails to decode,
  \<^verbatim>\<open>process_nodes\<close> returns exactly the chunks it returns for the list without that node:
  the node adds nothing to any accumulator's size, is not recursed into and gets no chunk
  of its own. (A \<^verbatim>\<open>"mix"\<close> chunk whose first and last node lie on either side of it still
  spans it, as for the shorter list.)
\<close>

theorem undecodable_node_is_skipped:
  assumes "utf8_decode (node_text bad) = Inl UnicodeDecodeError"
  shows "process_nodes source_code file_name (pre @ bad # post) chunks
           = process_nodes source_code file_name (pre @ post) chunks"
proof -
  have "\<not> decodable bad" using assms by (simp add: decodable_def node_size_def)
  then have "filter decodable (pre @ bad # post) = filter decodable (pre @ post)" by simp
  then have "process_list source_code file_name (pre @ bad # post) chunks
               = process_list source_code file_name (pre @ post) chunks"
    using process_list_filter by metis
  then show ?thesis by (simp add: process_nodes_list)
qed

theorem undecodable_node_is_skipped_witness:
  "utf8_decode (node_text c5_bad) = Inl UnicodeDecodeError
   \<and> process_nodes [97, 233, 98] ''a.py'' ([c5_before] @ c5_bad # [c5_after]) []
       = process_nodes [97, 233, 98] ''a.py'' ([c5_before] @ [c5_after]) []"
proof -
  have h: "utf8_decode (node_text c5_bad) = Inl UnicodeDecodeError"
    by (simp add: c5_bad_def utf8_eval)
  from h undecodable_node_is_skipped[OF h, of "[97, 233, 98]" "''a.py''" "[c5_before]"
      "[c5_after]" "[]"]
  show ?thesis by simp
qed


section \<open>Merging small siblings\<close>

text \<open>
  \<open>small_node\<close>: the text decodes to fewer than \<^verbatim>\<open>MIN_CHUNK_SIZE\<close> characters.
  \<open>group_size\<close> is the value of \<^verbatim>\<open>current_chunk_size\<close> after the nodes of a group were
  accumulated. A grouping of a sibling list cuts it into consecutive non-empty groups all
  of which, except possibly the last, have accumulated at least \<^verbatim>\<open>MIN_CHUNK_SIZE\<close>
  characters. \<open>mix_chunks\<close> are the chunks of type \<^verbatim>\<open>"mix"\<close> for a list of groups, numbered
  from \<open>base\<close>.
\<close>

definition small_node :: "node \<Rightarrow> bool" where
  "small_node n \<longleftrightarrow>
     (case utf8_decode (node_text n) of Inl e \<Rightarrow> False | Inr s \<Rightarrow> length s < MIN_CHUNK_SIZE)"

definition char_size :: "node \<Rightarrow> nat" where
  "char_size n = (case utf8_decode (node_text n) of Inl e \<Rightarrow> 0 | Inr s \<Rightarrow> length s)"

definition group_size :: "node list \<Rightarrow> nat" where
  "group_size g = sum_list (map char_size g)"

definition valid_grouping :: "node list list \<Rightarrow> node list \<Rightarrow> bool" where
  "valid_grouping gs ns \<longleftrightarrow>
     concat gs = ns \<and> list_all (\<lambda>g. g \<noteq> []) gs
     \<and> list_all (\<lambda>g. MIN_CHUNK_SIZE \<le> group_size g) (butlast gs)"

definition mix_record :: "pystr \<Rightarrow> string \<Rightarrow> nat \<Rightarrow> node list \<Rightarrow> chunk" where
  "mix_record src fname j g =
     \<lparr>content = py_slice src (start_byte (hd g)) (end_byte (last g)),
      metadata = \<lparr>md_id = j, md_type = ''mix'',
                  md_start_point = start_point (hd g), md_end_point = end_point (last g),
                  md_file_name = fname\<rparr>\<rparr>"

definition mix_chunks :: "pystr \<Rightarrow> string \<Rightarrow> nat \<Rightarrow> node list list \<Rightarrow> chunk list" where
  "mix_chunks src fname base gs = map (\<lambda>(j, g). mix_record src fname j g) (enumerate base gs)"

lemma small_node_size: "small_node n \<Longrightarrow> node_size n = Some (char_size n) \<and> char_size n < MIN_CHUNK_SIZE"
  by (auto simp: small_node_def node_size_def char_size_def split: sum.splits)

lemma group_size_append: "group_size (xs @ ys) = group_size xs + group_size ys"
  by (simp add: group_size_def)

lemma group_size_Cons: "group_size (x # xs) = char_size x + group_size xs"
  by (simp add: group_size_def)

lemma mix_chunk_record:
  "mix_chunk src fname g chunks = chunks @ [mix_record src fname (length chunks) g]"
  by (simp add: mix_chunk_def add_chunk_def mix_record_def)

lemma mix_chunks_Cons:
  "mix_chunks src fname base (g # gs)
     = mix_record src fname base g # mix_chunks src fname (Suc base) gs"
  by (simp add: mix_chunks_def)

text \<open>
  On small decodable siblings the inner loop takes the shortest run that brings the
  accumulated size to \<^verbatim>\<open>MIN_CHUNK_SIZE\<close>, or everything that is left.
\<close>

lemma merge_run_small:
  "list_all small_node ns \<Longrightarrow> merge_run ns cn cs = (rest, cn', cs') \<Longrightarrow>
   \<exists>taken. ns = taken @ rest \<and> cn' = cn @ taken \<and> cs' = cs + group_size taken
      \<and> (rest \<noteq> [] \<longrightarrow> MIN_CHUNK_SIZE \<le> cs')
      \<and> (\<forall>p q. taken = p @ q \<and> q \<noteq> [] \<longrightarrow> cs + group_size p < MIN_CHUNK_SIZE)"
proof (induction ns arbitrary: cn cs)
  case Nil
  then show ?case by (simp add: group_size_def)
next
  case (Cons n ns)
  show ?case
  proof (cases "cs < MIN_CHUNK_SIZE")
    case False
    with Cons.prems(2) have "rest = n # ns" "cn' = cn" "cs' = cs" by simp_all
    with False have "n # ns = [] @ rest \<and> cn' = cn @ [] \<and> cs' = cs + group_size []
      \<and> (rest \<noteq> [] \<longrightarrow> MIN_CHUNK_SIZE \<le> cs')
      \<and> (\<forall>p q. [] = p @ q \<and> q \<noteq> [] \<longrightarrow> cs + group_size p < MIN_CHUNK_SIZE)"
      by (simp add: group_size_def)
    then show ?thesis by blast
  next
    case True
    from Cons.prems(1) have sn: "small_node n" and sns: "list_all small_node ns" by simp_all
    from small_node_size[OF sn] have ns: "node_size n = Some (char_size n)" by simp
    with True Cons.prems(2)
    have "merge_run ns (cn @ [n]) (cs + char_size n) = (rest, cn', cs')" by simp
    from Cons.IH[OF sns this] obtain taken where
      t: "ns = taken @ rest" "cn' = (cn @ [n]) @ taken"
         "cs' = cs + char_size n + group_size taken"
         "rest \<noteq> [] \<longrightarrow> MIN_CHUNK_SIZE \<le> cs'"
         "\<forall>p q. taken = p @ q \<and> q \<noteq> [] \<longrightarrow> cs + char_size n + group_size p < MIN_CHUNK_SIZE"
      by blast
    have minimal: "\<forall>p q. n # taken = p @ q \<and> q \<noteq> [] \<longrightarrow> cs + group_size p < MIN_CHUNK_SIZE"
    proof (intro allI impI)
      fix p q
      assume pq: "n # taken = p @ q \<and> q \<noteq> []"
      show "cs + group_size p < MIN_CHUNK_SIZE"
      proof (cases p)
        case Nil
        with True show ?thesis by (simp add: group_size_def)
      next
        case (Cons a p')
        with pq have "a = n" "taken = p' @ q" "q \<noteq> []" by simp_all
        with t(5) have "cs + char_size n + group_size p' < MIN_CHUNK_SIZE" by blast
        with Cons \<open>a = n\<close> show ?thesis by (simp add: group_size_Cons)
      qed
    qed
    from t have "n # ns = (n # taken) @ rest \<and> cn' = cn @ (n # taken)
        \<and> cs' = cs + group_size (n # taken) \<and> (rest \<noteq> [] \<longrightarrow> MIN_CHUNK_SIZE \<le> cs')"
      by (simp add: group_size_Cons)
    with minimal show ?thesis by blast
  qed
qed

lemma valid_grouping_tail:
  "valid_grouping (h1 # h2 # hs) ms \<Longrightarrow>
   MIN_CHUNK_SIZE \<le> group_size h1 \<and> h1 \<noteq> [] \<and> ms = h1 @ concat (h2 # hs)
     \<and> valid_grouping (h2 # hs) (concat (h2 # hs))"
  by (auto simp: valid_grouping_def)

lemma valid_grouping_nonempty:
  "valid_grouping gs ns \<Longrightarrow> gs \<noteq> [] \<Longrightarrow> ns \<noteq> []"
  by (cases gs) (auto simp: valid_grouping_def)

lemma greedy_groups:
  "list_all small_node ns \<Longrightarrow>
   \<exists>gs. valid_grouping gs ns
     \<and> process_list src fname ns chunks = chunks @ mix_chunks src fname (length chunks) gs
     \<and> (\<forall>gs' ms pre. valid_grouping gs' ms \<and> ns = pre @ ms \<longrightarrow> length gs' \<le> length gs)"
proof (induction ns arbitrary: chunks rule: length_induct)
  case (1 ns)
  show ?case
  proof (cases ns)
    case Nil
    have "\<forall>gs' ms pre. valid_grouping gs' ms \<and> ([]::node list) = pre @ ms \<longrightarrow> length gs' \<le> 0"
      using valid_grouping_nonempty by fastforce
    then have "valid_grouping [] [] \<and> process_list src fname [] chunks
                 = chunks @ mix_chunks src fname (length chunks) []
        \<and> (\<forall>gs' ms pre. valid_grouping gs' ms \<and> ([]::node list) = pre @ ms
              \<longrightarrow> length gs' \<le> length ([]::node list list))"
      by (simp add: valid_grouping_def mix_chunks_def)
    with Nil show ?thesis by blast
  next
    case (Cons n ns')
    with "1.prems" have sn: "small_node n" and sns: "list_all small_node ns'" by simp_all
    from small_node_size[OF sn]
    have nsz: "node_size n = Some (char_size n)" and small: "char_size n < MIN_CHUNK_SIZE"
      by simp_all
    obtain rest cn cs where mr: "merge_run ns' [n] (char_size n) = (rest, cn, cs)"
      by (cases "merge_run ns' [n] (char_size n)")
    from merge_run_small[OF sns mr] obtain taken where
      t: "ns' = taken @ rest" "cn = [n] @ taken" "cs = char_size n + group_size taken"
         "rest \<noteq> [] \<longrightarrow> MIN_CHUNK_SIZE \<le> cs"
         "\<forall>p q. taken = p @ q \<and> q \<noteq> [] \<longrightarrow> char_size n + group_size p < MIN_CHUNK_SIZE"
      by blast
    have cn: "cn = n # taken" using t(2) by simp
    have gcn: "group_size cn = cs" using t(3) cn by (simp add: group_size_Cons)
    have shorter: "length rest < length ns" using Cons t(1) by simp
    have srest: "list_all small_node rest" using sns t(1) by simp
    let ?chunks' = "mix_chunk src fname cn chunks"
    from "1.IH" shorter srest obtain gs where
      g: "valid_grouping gs rest"
         "process_list src fname rest ?chunks'
            = ?chunks' @ mix_chunks src fname (length ?chunks') gs"
         "\<forall>gs' ms pre. valid_grouping gs' ms \<and> rest = pre @ ms \<longrightarrow> length gs' \<le> length gs"
      by blast
    have out: "process_list src fname ns chunks
                 = chunks @ mix_chunks src fname (length chunks) (cn # gs)"
      using Cons nsz small mr g(2) by (simp add: mix_chunk_record mix_chunks_Cons)
    have valid: "valid_grouping (cn # gs) ns"
    proof (cases gs)
      case Nil
      with g(1) have "rest = []" by (simp add: valid_grouping_def)
      with Nil Cons t(1) cn show ?thesis by (simp add: valid_grouping_def)
    next
      case (Cons g1 gs1)
      with g(1) have "rest \<noteq> []" using valid_grouping_nonempty by blast
      with t(4) gcn have "MIN_CHUNK_SIZE \<le> group_size cn" by simp
      with g(1) \<open>ns = n # ns'\<close> t(1) cn Cons show ?thesis
        by (simp add: valid_grouping_def)
    qed
    have maximal: "\<forall>gs' ms pre. valid_grouping gs' ms \<and> ns = pre @ ms
                      \<longrightarrow> length gs' \<le> length (cn # gs)"
    proof (intro allI impI)
      fix gs' ms pre
      assume a: "valid_grouping gs' ms \<and> ns = pre @ ms"
      show "length gs' \<le> length (cn # gs)"
      proof (cases gs')
        case Nil
        then show ?thesis by simp
      next
        case c1: (Cons h1 gs1)
        show ?thesis
        proof (cases gs1)
          case Nil
          with c1 show ?thesis by simp
        next
          case (Cons h2 hs)
          let ?tail = "concat (h2 # hs)"
          from a c1 Cons valid_grouping_tail[of h1 h2 hs ms]
          have h: "MIN_CHUNK_SIZE \<le> group_size h1" "h1 \<noteq> []" "ms = h1 @ ?tail"
                  "valid_grouping (h2 # hs) ?tail"
            by simp_all
          have eq: "(pre @ h1) @ ?tail = cn @ rest"
            using a h(3) \<open>ns = n # ns'\<close> t(1) cn by simp
          have "\<exists>pre'. rest = pre' @ ?tail"
          proof -
            from eq obtain us where
              us: "(pre @ h1 = cn @ us \<and> us @ ?tail = rest) \<or> ((pre @ h1) @ us = cn \<and> ?tail = us @ rest)"
              unfolding append_eq_append_conv2 by blast
            show ?thesis
            proof (cases "pre @ h1 = cn @ us \<and> us @ ?tail = rest")
              case True
              then show ?thesis by blast
            next
              case False
              with us have u: "(pre @ h1) @ us = cn" "?tail = us @ rest" by blast+
              show ?thesis
              proof (cases "us = []")
                case True
                with u(2) have "rest = [] @ ?tail" by simp
                then show ?thesis by blast
              next
                case False
                from h(2) obtain p' where p': "pre @ h1 = n # p'"
                  using u(1) cn by (cases "pre @ h1") auto
                with u(1) cn have "taken = p' @ us" by simp
                with t(5) False have "char_size n + group_size p' < MIN_CHUNK_SIZE" by blast
                then have "group_size (pre @ h1) < MIN_CHUNK_SIZE"
                  using p' by (simp add: group_size_Cons)
                then have "group_size h1 < MIN_CHUNK_SIZE"
                  by (simp add: group_size_append)
                with h(1) show ?thesis by simp
              qed
            qed
          qed
          then obtain pre' where "rest = pre' @ ?tail" by blast
          with g(3) h(4) have "length (h2 # hs) \<le> length gs" by blast
          with c1 Cons show ?thesis by simp
        qed
      qed
    qed
    from valid out maximal show ?thesis by blast
  qed
qed

definition c4_nodes :: "node list" where
  "c4_nodes =
     [ascii_leaf 0 600 ''expression_statement'', ascii_leaf 600 600 ''expression_statement'',
      ascii_leaf 1200 600 ''expression_statement'', ascii_leaf 1800 600 ''expression_statement'']"

definition c4_root :: node where
  "c4_root = ascii_node 0 2400 ''module'' c4_nodes"

lemma c4_nodes_small: "list_all small_node c4_nodes"
  by (simp add: c4_nodes_def small_node_def example_eval)

text \<open>
  C4 as stated fails in its last part. The four children of the example root have 600
  characters each. \<^verbatim>\<open>get_chunks\<close> emits two \<^verbatim>\<open>"mix"\<close> chunks, while the single group of all
  four children also satisfies the bound (every chunk but the last has at least
  \<^verbatim>\<open>MIN_CHUNK_SIZE\<close> characters) with one chunk: two is not the fewest possible.
\<close>

theorem merge_count_not_fewest_counterexample:
  "list_all small_node (children c4_root)
   \<and> get_chunks c4_root ''a.py'' =
       Inr [\<lparr>content = replicate 1200 97,
             metadata = \<lparr>md_id = 0, md_type = ''mix'',
                         md_start_point = (0, 0), md_end_point = (0, 1200),
                         md_file_name = ''a.py''\<rparr>\<rparr>,
            \<lparr>content = replicate 1200 97,
             metadata = \<lparr>md_id = 1, md_type = ''mix'',
                         md_start_point = (0, 1200), md_end_point = (0, 2400),
                         md_file_name = ''a.py''\<rparr>\<rparr>]
   \<and> valid_grouping [children c4_root] (children c4_root)
   \<and> length [children c4_root] < 2"
  using c4_nodes_small
  by (simp add: get_chunks_list c4_root_def c4_nodes_def valid_grouping_def example_eval)

text \<open>
  C4, amended. For every sibling list whose nodes all decode to fewer than
  \<^verbatim>\<open>MIN_CHUNK_SIZE\<close> characters, \<^verbatim>\<open>process_nodes\<close> emits only chunks of type \<^verbatim>\<open>"mix"\<close>, one
  for each group of a grouping of the list whose groups, except possibly the last, have
  accumulated at least \<^verbatim>\<open>MIN_CHUNK_SIZE\<close> characters; and the number of emitted chunks is
  the greatest (not the fewest) that such a grouping can have, since every chunk is closed
  as soon as it reaches \<^verbatim>\<open>MIN_CHUNK_SIZE\<close>.
\<close>

theorem small_siblings_merge_greedily:
  assumes "list_all small_node ns"
  shows "\<exists>gs. valid_grouping gs ns
           \<and> process_nodes source_code file_name ns chunks
               = Inr (chunks @ mix_chunks source_code file_name (length chunks) gs)
           \<and> (\<forall>gs'. valid_grouping gs' ns \<longrightarrow> length gs' \<le> length gs)"
proof -
  from greedy_groups[OF assms, of source_code file_name chunks] obtain gs where
    g: "valid_grouping gs ns"
       "process_list source_code file_name ns chunks
          = chunks @ mix_chunks source_code file_name (length chunks) gs"
       "\<forall>gs' ms pre. valid_grouping gs' ms \<and> ns = pre @ ms \<longrightarrow> length gs' \<le> length gs"
    by blast
  have "\<forall>gs'. valid_grouping gs' ns \<longrightarrow> length gs' \<le> length gs"
  proof (intro allI impI)
    fix gs'
    assume "valid_grouping gs' ns"
    then have "valid_grouping gs' ns \<and> ns = [] @ ns" by simp
    with g(3) show "length gs' \<le> length gs" by blast
  qed
  with g(1,2) show ?thesis by (auto simp: process_nodes_list)
qed

theorem small_siblings_merge_greedily_witness:
  "list_all small_node c4_nodes
   \<and> (\<exists>gs. valid_grouping gs c4_nodes
          \<and> process_nodes (replicate 2400 97) ''a.py'' c4_nodes []
              = Inr ([] @ mix_chunks (replicate 2400 97) ''a.py'' (length ([] :: chunk list)) gs)
          \<and> (\<forall>gs'. valid_grouping gs' c4_nodes \<longrightarrow> length gs' \<le> length gs))"
  using c4_nodes_small
    small_siblings_merge_greedily[OF c4_nodes_small, of "replicate 2400 97" "''a.py''" "[]"]
  by blast


section \<open>Chunk contents and multi-byte text\<close>

text \<open>
  \<^verbatim>\<open>add_chunk\<close> slices \<^verbatim>\<open>source_code\<close>, the decoded \<^verbatim>\<open>str\<close> of the root, with
  \<^verbatim>\<open>start_byte\<close> and \<^verbatim>\<open>end_byte\<close>, which count bytes of the undecoded text. As soon as a
  character of more than one byte occurs, character positions and byte positions differ.

  The example is the tree of a source of two characters, U+00E9 (e with acute accent, the
  bytes C3 A9) and a newline: the root spans bytes 0 to 3, its only child is the statement
  made of the first character, bytes 0 to 2.
\<close>

definition c2_child :: node where
  "c2_child = Node [0xC3, 0xA9] 0 2 (0, 0) (0, 2) ''expression_statement'' []"

definition c2_root :: node where
  "c2_root = Node [0xC3, 0xA9, 0x0A] 0 3 (0, 0) (1, 0) ''module'' [c2_child]"

text \<open>
  C2 fails on this input. Every text decodes, the text of the sibling list \<open>[c2_child]\<close>
  is the single character U+00E9 (code point 233), but the content of the only chunk is
  \<^verbatim>\<open>source_code[0:2]\<close>, the two characters U+00E9 and newline: the chunk runs past the
  end of its node.
\<close>

theorem multibyte_content_overruns_node:
  "utf8_decode (node_text c2_root) = Inr [233, 10]
   \<and> utf8_decode (node_text c2_child) = Inr [233]
   \<and> get_chunks c2_root ''a.py'' =
       Inr [\<lparr>content = [233, 10],
             metadata = \<lparr>md_id = 0, md_type = ''mix'',
                         md_start_point = (0, 0), md_end_point = (0, 2),
                         md_file_name = ''a.py''\<rparr>\<rparr>]"
  by (simp add: get_chunks_list c2_root_def c2_child_def utf8_eval node_size_def
      mix_chunk_def add_chunk_def py_slice_def MIN_CHUNK_SIZE_def)


section \<open>Chunk contents on ASCII sources\<close>

text \<open>
  Where every byte of the source is ASCII, byte offsets are character offsets and the
  contents are right. \<open>chunk_nodes\<close> lists, for each chunk that \<^verbatim>\<open>process_nodes\<close> emits for a
  sibling list, the nodes the chunk was made from: the accumulated nodes of a merge, or
  the single node of a standalone chunk, with a split node replaced by the groups of its
  children. \<open>tree_in_source\<close> says that the text of a node and of its descendants is the
  slice of the source bytes at the node's byte range and that children follow each other
  without a gap (\<open>adjacent\<close>), as the data model of the specification requires.
\<close>

function chunk_nodes :: "node list \<Rightarrow> node list list" where
  "chunk_nodes [] = []"
| "chunk_nodes (n # ns) =
     (case node_size n of
        None \<Rightarrow> chunk_nodes ns
      | Some k \<Rightarrow>
          if k < MIN_CHUNK_SIZE then
            (case merge_run ns [n] k of (rest, cn, cs) \<Rightarrow> cn # chunk_nodes rest)
          else if k > MAX_CHUNK_SIZE \<and> children n \<noteq> [] then
            chunk_nodes (children n) @ chunk_nodes ns
          else [n] # chunk_nodes ns)"
  by pat_completeness auto
termination
proof (relation "measure (size_list size)", goal_cases)
  case 1
  show ?case by simp
next
  case 2
  then show ?case by simp
next
  case (3 n ns k rest pr)
  then have "\<exists>cn cs. merge_run ns [n] k = (rest, cn, cs)" by (cases pr) metis
  then have "size_list size rest \<le> size_list size ns" using merge_run_size by blast
  then show ?case by simp
next
  case (4 n ns k)
  have "size_list size (children n) < size n" by (rule size_children_less)
  then show ?case by simp
next
  case 5
  then show ?case by simp
next
  case 6
  then show ?case by simp
qed

fun adjacent :: "node list \<Rightarrow> bool" where
  "adjacent [] = True"
| "adjacent [n] = True"
| "adjacent (n # m # ns) = (end_byte n = start_byte m \<and> adjacent (m # ns))"

fun tree_in_source :: "byte list \<Rightarrow> node \<Rightarrow> bool" where
  "tree_in_source src_bytes (Node t sb eb sp ep ty kids) =
     (sb \<le> eb \<and> t = py_slice src_bytes sb eb \<and> adjacent kids
      \<and> (\<forall>k \<in> set kids. tree_in_source src_bytes k))"

lemma tree_in_source_fields:
  "tree_in_source src_bytes n \<Longrightarrow>
   start_byte n \<le> end_byte n
   \<and> node_text n = py_slice src_bytes (start_byte n) (end_byte n)
   \<and> adjacent (children n) \<and> (\<forall>k \<in> set (children n). tree_in_source src_bytes k)"
  by (cases n) simp

lemma py_slice_append:
  "a \<le> b \<Longrightarrow> b \<le> c \<Longrightarrow> py_slice xs a c = py_slice xs a b @ py_slice xs b c"
proof -
  assume ab: "a \<le> b" and bc: "b \<le> c"
  then have "c - a = (b - a) + (c - b)" by simp
  then have "take (c - a) (drop a xs)
               = take (b - a) (drop a xs) @ take (c - b) (drop (b - a) (drop a xs))"
    by (simp only: take_add)
  with ab show ?thesis by (simp add: py_slice_def)
qed

lemma py_slice_map: "py_slice (map f xs) a b = map f (py_slice xs a b)"
  by (simp add: py_slice_def take_map drop_map)

lemma ascii_slice_decodes:
  assumes "\<forall>b \<in> set src_bytes. b < 0x80"
  shows "utf8_decode (py_slice src_bytes a b) = Inr (map unat (py_slice src_bytes a b))"
proof -
  have "set (py_slice src_bytes a b) \<subseteq> set src_bytes"
    unfolding py_slice_def by (meson set_take_subset set_drop_subset subset_trans)
  with assms have "\<forall>x \<in> set (py_slice src_bytes a b). x < 0x80" by blast
  then show ?thesis by (rule utf8_decode_ascii)
qed

lemma adjacent_tail: "adjacent (n # ns) \<Longrightarrow> adjacent ns"
  by (cases ns) simp_all

lemma adjacent_drop: "adjacent ns \<Longrightarrow> adjacent (drop k ns)"
proof (induction ns arbitrary: k)
  case Nil
  then show ?case by simp
next
  case (Cons n ns)
  show ?case
  proof (cases k)
    case 0
    with Cons.prems show ?thesis by simp
  next
    case (Suc j)
    from Cons.prems have "adjacent ns" by (rule adjacent_tail)
    with Cons.IH Suc show ?thesis by simp
  qed
qed

lemma adjacent_prefix: "adjacent (xs @ ys) \<Longrightarrow> adjacent xs"
proof (induction xs rule: adjacent.induct)
  case 1
  then show ?case by simp
next
  case (2 n)
  then show ?case by simp
next
  case (3 n m ns)
  then show ?case by simp
qed

text \<open>The slice over a run of adjacent nodes is the concatenation of the nodes' slices.\<close>

lemma adjacent_run_slice:
  "g \<noteq> [] \<Longrightarrow> adjacent g \<Longrightarrow> \<forall>n \<in> set g. start_byte n \<le> end_byte n \<Longrightarrow>
   start_byte (hd g) \<le> end_byte (last g)
   \<and> py_slice xs (start_byte (hd g)) (end_byte (last g))
       = concat (map (\<lambda>n. py_slice xs (start_byte n) (end_byte n)) g)"
proof (induction g rule: adjacent.induct)
  case 1
  then show ?case by simp
next
  case (2 n)
  then show ?case by simp
next
  case (3 n m ns)
  from "3.prems" have adj: "end_byte n = start_byte m" "adjacent (m # ns)"
    and ord: "start_byte n \<le> end_byte n" "\<forall>k \<in> set (m # ns). start_byte k \<le> end_byte k"
    by simp_all
  from "3.IH"[OF _ adj(2) ord(2)]
  have ih: "start_byte m \<le> end_byte (last (m # ns))"
    "py_slice xs (start_byte m) (end_byte (last (m # ns)))
       = concat (map (\<lambda>n. py_slice xs (start_byte n) (end_byte n)) (m # ns))"
    by simp_all
  have le: "end_byte n \<le> end_byte (last (m # ns))" using ih(1) adj(1) by simp
  have "py_slice xs (start_byte n) (end_byte (last (m # ns)))
          = py_slice xs (start_byte n) (end_byte n)
              @ py_slice xs (end_byte n) (end_byte (last (m # ns)))"
    using ord(1) le by (rule py_slice_append)
  with ih(2) adj(1) ord(1) le show ?case by simp
qed

lemma merge_run_decodable:
  "\<forall>n \<in> set ns. node_size n \<noteq> None \<Longrightarrow> merge_run ns cn cs = (rest, cn', cs') \<Longrightarrow>
   \<exists>taken. ns = taken @ rest \<and> cn' = cn @ taken"
proof (induction ns arbitrary: cn cs)
  case Nil
  then show ?case by simp
next
  case (Cons n ns)
  show ?case
  proof (cases "cs < MIN_CHUNK_SIZE")
    case False
    with Cons.prems(2) have "n # ns = [] @ rest \<and> cn' = cn @ []" by simp
    then show ?thesis by blast
  next
    case True
    from Cons.prems(1) obtain k where k: "node_size n = Some k" by auto
    with True Cons.prems(2) have "merge_run ns (cn @ [n]) (cs + k) = (rest, cn', cs')" by simp
    with Cons.IH Cons.prems(1) obtain taken where "ns = taken @ rest" "cn' = (cn @ [n]) @ taken"
      by (metis list.set_intros(2))
    then have "n # ns = (n # taken) @ rest \<and> cn' = cn @ (n # taken)" by simp
    then show ?thesis by blast
  qed
qed

definition decoded_text :: "node list \<Rightarrow> pystr" where
  "decoded_text g = map unat (concat (map node_text g))"

lemma ascii_node_size:
  assumes "\<forall>b \<in> set src_bytes. b < 0x80" and "tree_in_source src_bytes n"
  shows "node_size n = Some (length (node_text n))"
proof -
  from tree_in_source_fields[OF assms(2)]
  have "node_text n = py_slice src_bytes (start_byte n) (end_byte n)" by simp
  with ascii_slice_decodes[OF assms(1), of "start_byte n" "end_byte n"]
  show ?thesis by (simp add: node_size_def)
qed

lemma ascii_run_content:
  assumes "\<forall>n \<in> set g. tree_in_source src_bytes n" and "adjacent g" and "g \<noteq> []"
  shows "py_slice (map unat src_bytes) (start_byte (hd g)) (end_byte (last g)) = decoded_text g"
proof -
  have ord: "\<forall>n \<in> set g. start_byte n \<le> end_byte n"
    using assms(1) tree_in_source_fields by blast
  have texts: "\<forall>n \<in> set g. py_slice src_bytes (start_byte n) (end_byte n) = node_text n"
    using assms(1) tree_in_source_fields by metis
  from adjacent_run_slice[OF assms(3) assms(2) ord, of src_bytes]
  have "py_slice src_bytes (start_byte (hd g)) (end_byte (last g))
          = concat (map (\<lambda>n. py_slice src_bytes (start_byte n) (end_byte n)) g)"
    by simp
  also have "\<dots> = concat (map node_text g)"
    using texts by (simp cong: map_cong)
  finally show ?thesis by (simp add: decoded_text_def py_slice_map)
qed

lemma ascii_contents:
  assumes ascii: "\<forall>b \<in> set src_bytes. b < 0x80"
  shows "adjacent ns \<Longrightarrow> \<forall>n \<in> set ns. tree_in_source src_bytes n \<Longrightarrow>
         map content (process_list (map unat src_bytes) fname ns chunks)
           = map content chunks @ map decoded_text (chunk_nodes ns)"
proof (induction "map unat src_bytes" fname ns chunks rule: process_list.induct)
  case (1 fname chunks)
  show ?case by simp
next
  case (2 fname n ns chunks)
  let ?src = "map unat src_bytes"
  from "2.prems" have tn: "tree_in_source src_bytes n"
    and tns: "\<forall>m \<in> set ns. tree_in_source src_bytes m"
    and ans: "adjacent ns"
    using adjacent_tail by auto
  from ascii_node_size[OF ascii tn] obtain k where k: "node_size n = Some k" by simp
  have dec: "\<forall>m \<in> set ns. node_size m \<noteq> None"
    using tns ascii_node_size[OF ascii] by simp
  show ?case
  proof (cases "k < MIN_CHUNK_SIZE")
    case True
    obtain rest cn cs where mr: "merge_run ns [n] k = (rest, cn, cs)"
      by (cases "merge_run ns [n] k")
    from merge_run_decodable[OF dec mr] obtain taken where
      t: "ns = taken @ rest" "cn = [n] @ taken" by blast
    have cn_adj: "adjacent cn"
      using "2.prems"(1) t adjacent_prefix[of "n # taken" rest] by simp
    have cn_src: "\<forall>m \<in> set cn. tree_in_source src_bytes m"
      using t tn tns by auto
    have cn_ne: "cn \<noteq> []" using t(2) by simp
    have rest_adj: "adjacent rest"
      using ans t(1) adjacent_drop[of ns "length taken"] by simp
    have rest_src: "\<forall>m \<in> set rest. tree_in_source src_bytes m"
      using t(1) tns by auto
    have mix: "map content (mix_chunk ?src fname cn chunks)
                 = map content chunks @ [decoded_text cn]"
      using ascii_run_content[OF cn_src cn_adj cn_ne]
      by (simp add: mix_chunk_def add_chunk_def)
    from "2.hyps"(2)[OF k True mr[symmetric] refl rest_adj rest_src] mix k True mr
    show ?thesis by simp
  next
    case notsmall: False
    show ?thesis
    proof (cases "k > MAX_CHUNK_SIZE \<and> children n \<noteq> []")
      case True
      from tree_in_source_fields[OF tn]
      have kids: "adjacent (children n)" "\<forall>c \<in> set (children n). tree_in_source src_bytes c"
        by simp_all
      from "2.hyps"(4)[OF k notsmall True ans tns]
        "2.hyps"(3)[OF k notsmall True kids] k notsmall True
      show ?thesis by simp
    next
      case False
      have "py_slice ?src (start_byte n) (end_byte n) = decoded_text [n]"
        using ascii_run_content[of "[n]" src_bytes] tn by simp
      then have own: "map content (own_chunk ?src fname n chunks)
                        = map content chunks @ [decoded_text [n]]"
        by (simp add: own_chunk_def add_chunk_def)
      from "2.hyps"(5)[OF k notsmall False ans tns] own k notsmall False
      show ?thesis by auto
    qed
  qed
qed

text \<open>
  For a root whose text is ASCII and equal to the source, and whose subtrees lie in the
  source with adjacent siblings, the content of each chunk is exactly the decoded text of
  the nodes it was made from.
\<close>

lemma get_chunks_ascii_contents:
  assumes "\<forall>b \<in> set (node_text root_node). b < 0x80"
    and "adjacent (children root_node)"
    and "\<forall>n \<in> set (children root_node). tree_in_source (node_text root_node) n"
  shows "\<exists>chunks. get_chunks root_node fname = Inr chunks
           \<and> map content chunks = map decoded_text (chunk_nodes (children root_node))"
proof -
  have "utf8_decode (node_text root_node) = Inr (map unat (node_text root_node))"
    using assms(1) by (rule utf8_decode_ascii)
  with ascii_contents[OF assms(1) assms(2) assms(3), of fname "[]"]
  show ?thesis by (simp add: get_chunks_list)
qed


section \<open>Large nodes\<close>

text \<open>
  A node of more than \<^verbatim>\<open>MAX_CHUNK_SIZE\<close> characters is split or emitted on its own only
  when the outer loop examines it. When the siblings before it leave an accumulator that
  is still below \<^verbatim>\<open>MIN_CHUNK_SIZE\<close>, the inner loop (lines 76-86) takes the node first and
  appends it without any test of its size or children.

  \<open>open_run pre\<close> is the value of \<^verbatim>\<open>current_chunk_nodes\<close> with which the inner loop runs off
  the end of the siblings \<open>pre\<close> while \<^verbatim>\<open>current_chunk_size\<close> is still below
  \<^verbatim>\<open>MIN_CHUNK_SIZE\<close>; it is empty when the scan of \<open>pre\<close> ends in the outer loop or
  with an accumulator that has reached \<^verbatim>\<open>MIN_CHUNK_SIZE\<close>.
\<close>

function open_run :: "node list \<Rightarrow> node list" where
  "open_run [] = []"
| "open_run (n # ns) =
     (case node_size n of
        None \<Rightarrow> open_run ns
      | Some k \<Rightarrow>
          if k < MIN_CHUNK_SIZE then
            (case merge_run ns [n] k of
               (rest, cn, cs) \<Rightarrow> if cs < MIN_CHUNK_SIZE then cn else open_run rest)
          else open_run ns)"
  by pat_completeness auto
termination
proof (relation "measure (size_list size)", goal_cases)
  case 1
  show ?case by simp
next
  case 2
  then show ?case by simp
next
  case (3 n ns k rest pr)
  then have "\<exists>cn cs. merge_run ns [n] k = (rest, cn, cs)" by (cases pr) metis
  then have "size_list size rest \<le> size_list size ns" using merge_run_size by blast
  then show ?case by simp
next
  case 4
  then show ?case by simp
qed

lemma merge_run_append_open:
  "merge_run ns cn cs = (rest, cn', cs') \<Longrightarrow> cs' < MIN_CHUNK_SIZE \<Longrightarrow>
   rest = [] \<and> merge_run (ns @ ys) cn cs = merge_run ys cn' cs'"
proof (induction ns arbitrary: cn cs)
  case Nil
  then show ?case by simp
next
  case (Cons n ns)
  show ?case
  proof (cases "cs < MIN_CHUNK_SIZE")
    case False
    with Cons.prems show ?thesis by simp
  next
    case True
    show ?thesis
    proof (cases "node_size n")
      case None
      with True Cons.prems(1) have "merge_run ns cn cs = (rest, cn', cs')" by simp
      from Cons.IH[OF this Cons.prems(2)] None True show ?thesis by simp
    next
      case (Some k)
      with True Cons.prems(1) have "merge_run ns (cn @ [n]) (cs + k) = (rest, cn', cs')" by simp
      from Cons.IH[OF this Cons.prems(2)] Some True show ?thesis by simp
    qed
  qed
qed

lemma merge_run_append_closed:
  "merge_run ns cn cs = (rest, cn', cs') \<Longrightarrow> MIN_CHUNK_SIZE \<le> cs' \<Longrightarrow>
   merge_run (ns @ ys) cn cs = (rest @ ys, cn', cs')"
proof (induction ns arbitrary: cn cs)
  case Nil
  then show ?case by (simp add: merge_run_done)
next
  case (Cons n ns)
  show ?case
  proof (cases "cs < MIN_CHUNK_SIZE")
    case False
    with Cons.prems show ?thesis by (simp add: merge_run_done)
  next
    case True
    show ?thesis
    proof (cases "node_size n")
      case None
      with True Cons.prems(1) have "merge_run ns cn cs = (rest, cn', cs')" by simp
      from Cons.IH[OF this Cons.prems(2)] None True show ?thesis by simp
    next
      case (Some k)
      with True Cons.prems(1) have "merge_run ns (cn @ [n]) (cs + k) = (rest, cn', cs')" by simp
      from Cons.IH[OF this Cons.prems(2)] Some True show ?thesis by simp
    qed
  qed
qed

text \<open>
  The open accumulator holds the decodable nodes of a final stretch of the siblings, and
  their accumulated size is below \<^verbatim>\<open>MIN_CHUNK_SIZE\<close>.
\<close>

lemma merge_run_taken:
  "merge_run ns cn cs = (rest, cn', cs') \<Longrightarrow>
   \<exists>taken. ns = taken @ rest \<and> cn' = cn @ filter decodable taken
      \<and> cs' = cs + group_size (filter decodable taken)"
proof (induction ns arbitrary: cn cs)
  case Nil
  then show ?case by (simp add: group_size_def)
next
  case (Cons n ns)
  show ?case
  proof (cases "cs < MIN_CHUNK_SIZE")
    case False
    with Cons.prems have "n # ns = [] @ rest \<and> cn' = cn @ filter decodable []
        \<and> cs' = cs + group_size (filter decodable [])"
      by (simp add: group_size_def)
    then show ?thesis by blast
  next
    case True
    show ?thesis
    proof (cases "node_size n")
      case None
      with True Cons.prems have "merge_run ns cn cs = (rest, cn', cs')" by simp
      from Cons.IH[OF this] obtain taken where
        "ns = taken @ rest" "cn' = cn @ filter decodable taken"
        "cs' = cs + group_size (filter decodable taken)"
        by blast
      with None have "n # ns = (n # taken) @ rest \<and> cn' = cn @ filter decodable (n # taken)
          \<and> cs' = cs + group_size (filter decodable (n # taken))"
        by (simp add: decodable_def)
      then show ?thesis by blast
    next
      case (Some k)
      then have ck: "char_size n = k"
        by (auto simp add: node_size_def char_size_def split: sum.splits)
      from Some True Cons.prems
      have "merge_run ns (cn @ [n]) (cs + k) = (rest, cn', cs')" by simp
      from Cons.IH[OF this] obtain taken where
        "ns = taken @ rest" "cn' = (cn @ [n]) @ filter decodable taken"
        "cs' = cs + k + group_size (filter decodable taken)"
        by blast
      with Some ck have "n # ns = (n # taken) @ rest
          \<and> cn' = cn @ filter decodable (n # taken)
          \<and> cs' = cs + group_size (filter decodable (n # taken))"
        by (simp add: decodable_def group_size_Cons)
      then show ?thesis by blast
    qed
  qed
qed

lemma open_run_stretch:
  "\<exists>head tail. pre = head @ tail \<and> open_run pre = filter decodable tail
     \<and> (open_run pre \<noteq> [] \<longrightarrow> group_size (open_run pre) < MIN_CHUNK_SIZE)"
proof (induction pre rule: open_run.induct)
  case 1
  show ?case by simp
next
  case (2 n ns)
  show ?case
  proof (cases "node_size n")
    case None
    from "2.IH"(1)[OF None] obtain head tail where
      "ns = head @ tail" "open_run ns = filter decodable tail"
      "open_run ns \<noteq> [] \<longrightarrow> group_size (open_run ns) < MIN_CHUNK_SIZE"
      by blast
    with None have "n # ns = (n # head) @ tail \<and> open_run (n # ns) = filter decodable tail
        \<and> (open_run (n # ns) \<noteq> [] \<longrightarrow> group_size (open_run (n # ns)) < MIN_CHUNK_SIZE)"
      by simp
    then show ?thesis by blast
  next
    case (Some k)
    then have ck: "char_size n = k" and dn: "decodable n"
      by (auto simp add: node_size_def char_size_def decodable_def split: sum.splits)
    show ?thesis
    proof (cases "k < MIN_CHUNK_SIZE")
      case True
      obtain rest cn cs where mr: "merge_run ns [n] k = (rest, cn, cs)"
        by (cases "merge_run ns [n] k")
      show ?thesis
      proof (cases "cs < MIN_CHUNK_SIZE")
        case op: True
        from merge_run_append_open[OF mr op] have rest: "rest = []" by simp
        from merge_run_taken[OF mr] rest obtain taken where
          t: "ns = taken" "cn = [n] @ filter decodable taken"
             "cs = k + group_size (filter decodable taken)"
          by auto
        have "open_run (n # ns) = cn" using Some True mr op by simp
        with t ck dn op have "n # ns = [] @ (n # ns)
            \<and> open_run (n # ns) = filter decodable (n # ns)
            \<and> (open_run (n # ns) \<noteq> [] \<longrightarrow> group_size (open_run (n # ns)) < MIN_CHUNK_SIZE)"
          by (simp add: group_size_Cons)
        then show ?thesis by blast
      next
        case cl: False
        from merge_run_suffix[OF mr] obtain j where j: "rest = drop j ns" by blast
        from "2.IH"(2)[OF Some True mr[symmetric] refl cl] obtain head tail where
          ht: "rest = head @ tail" "open_run rest = filter decodable tail"
              "open_run rest \<noteq> [] \<longrightarrow> group_size (open_run rest) < MIN_CHUNK_SIZE"
          by blast
        have e1: "open_run (n # ns) = open_run rest" using Some True mr cl by simp
        have e2: "n # ns = (n # take j ns @ head) @ tail"
          using j ht(1) by (metis append.assoc append_Cons append_take_drop_id)
        have e3: "open_run (n # ns) = filter decodable tail"
          using e1 ht(2) by (simp only:)
        have e4: "open_run (n # ns) \<noteq> [] \<longrightarrow> group_size (open_run (n # ns)) < MIN_CHUNK_SIZE"
          using e1 ht(3) by (simp only:)
        from e2 e3 e4 show ?thesis by blast
      qed
    next
      case False
      from "2.IH"(3)[OF Some False] obtain head tail where
        "ns = head @ tail" "open_run ns = filter decodable tail"
        "open_run ns \<noteq> [] \<longrightarrow> group_size (open_run ns) < MIN_CHUNK_SIZE"
        by blast
      with Some False have "n # ns = (n # head) @ tail
          \<and> open_run (n # ns) = filter decodable tail
          \<and> (open_run (n # ns) \<noteq> [] \<longrightarrow> group_size (open_run (n # ns)) < MIN_CHUNK_SIZE)"
        by simp
      then show ?thesis by blast
    qed
  qed
qed

text \<open>
  No accumulator is open behind siblings none of which is small: each of them is handled
  by the outer loop on its own.
\<close>

lemma open_run_no_small:
  "\<forall>n \<in> set pre. \<forall>k. node_size n = Some k \<longrightarrow> MIN_CHUNK_SIZE \<le> k \<Longrightarrow> open_run pre = []"
proof (induction pre)
  case Nil
  show ?case by simp
next
  case (Cons n ns)
  then have ih: "open_run ns = []" by simp
  show ?case
  proof (cases "node_size n")
    case None
    with ih show ?thesis by simp
  next
    case (Some k)
    with Cons.prems have "\<not> k < MIN_CHUNK_SIZE" by auto
    with Some ih show ?thesis by simp
  qed
qed

text \<open>
  The scan of a sibling list \<open>pre @ post\<close>, in terms of the scan of \<open>pre\<close>: with no open
  accumulator the rest is scanned afresh; with an open accumulator the last chunk of
  \<open>pre\<close> is its \<^verbatim>\<open>"mix"\<close> chunk, and a decodable next sibling \<open>m\<close> of at least
  \<^verbatim>\<open>MIN_CHUNK_SIZE\<close> characters is appended to that accumulator, which then is flushed.
\<close>

lemma process_list_append:
  "(open_run pre = [] \<longrightarrow>
      (\<forall>post. process_list src fname (pre @ post) chunks
                = process_list src fname post (process_list src fname pre chunks)))
   \<and> (open_run pre \<noteq> [] \<longrightarrow>
      (\<exists>c1. process_list src fname pre chunks
                = c1 @ [mix_record src fname (length c1) (open_run pre)]
          \<and> (\<forall>m k post. node_size m = Some k \<and> MIN_CHUNK_SIZE \<le> k \<longrightarrow>
                process_list src fname (pre @ m # post) chunks
                  = process_list src fname post
                      (c1 @ [mix_record src fname (length c1) (open_run pre @ [m])]))))"
proof (induction src fname pre chunks rule: process_list.induct)
  case (1 src fname chunks)
  show ?case by simp
next
  case (2 src fname n ns chunks)
  show ?case
  proof (cases "node_size n")
    case None
    with "2.IH"(1) show ?thesis by simp
  next
    case (Some k)
    show ?thesis
    proof (cases "k < MIN_CHUNK_SIZE")
      case True
      obtain rest cn cs where mr: "merge_run ns [n] k = (rest, cn, cs)"
        by (cases "merge_run ns [n] k")
      show ?thesis
      proof (cases "cs < MIN_CHUNK_SIZE")
        case op: True
        from merge_run_append_open[OF mr op]
        have rest: "rest = []" and app: "\<And>ys. merge_run (ns @ ys) [n] k = merge_run ys cn cs"
          by simp_all
        from merge_run_extends[OF mr] have ne: "cn \<noteq> []" by auto
        have orun: "open_run (n # ns) = cn" using Some True mr op by simp
        have whole: "process_list src fname (n # ns) chunks
                       = chunks @ [mix_record src fname (length chunks) cn]"
          using Some True mr rest by (simp add: mix_chunk_record)
        have ext: "\<forall>m j post. node_size m = Some j \<and> MIN_CHUNK_SIZE \<le> j \<longrightarrow>
                process_list src fname ((n # ns) @ m # post) chunks
                  = process_list src fname post
                      (chunks @ [mix_record src fname (length chunks) (cn @ [m])])"
        proof (intro allI impI)
          fix m j post
          assume m: "node_size m = Some j \<and> MIN_CHUNK_SIZE \<le> j"
          then have "merge_run (m # post) cn cs = (post, cn @ [m], cs + j)"
            using op by (simp add: merge_run_done)
          with app[of "m # post"]
          have "merge_run (ns @ m # post) [n] k = (post, cn @ [m], cs + j)" by simp
          with Some True show "process_list src fname ((n # ns) @ m # post) chunks
                  = process_list src fname post
                      (chunks @ [mix_record src fname (length chunks) (cn @ [m])])"
            by (simp add: mix_chunk_record)
        qed
        from orun ne whole ext show ?thesis by auto
      next
        case cl: False
        then have ge: "MIN_CHUNK_SIZE \<le> cs" by simp
        have app: "\<And>ys. merge_run (ns @ ys) [n] k = (rest @ ys, cn, cs)"
          using merge_run_append_closed[OF mr ge] by simp
        have orun: "open_run (n # ns) = open_run rest" using Some True mr cl by simp
        have whole: "process_list src fname (n # ns) chunks
                       = process_list src fname rest (mix_chunk src fname cn chunks)"
          using Some True mr by simp
        have step: "\<And>ys. process_list src fname ((n # ns) @ ys) chunks
                       = process_list src fname (rest @ ys) (mix_chunk src fname cn chunks)"
          using Some True app by simp
        from "2.IH"(2)[OF Some True mr[symmetric] refl] orun whole step
        show ?thesis by simp
      qed
    next
      case notsmall: False
      show ?thesis
      proof (cases "k > MAX_CHUNK_SIZE \<and> children n \<noteq> []")
        case True
        from "2.IH"(4)[OF Some notsmall True] Some notsmall True
        show ?thesis by simp
      next
        case False
        from "2.IH"(5)[OF Some notsmall False] Some notsmall False
        show ?thesis by auto
      qed
    qed
  qed
qed


lemma process_list_extends: "\<exists>more. process_list src fname ns chunks = chunks @ more"
proof (induction src fname ns chunks rule: process_list.induct)
  case (1 src fname chunks)
  show ?case by simp
next
  case (2 src fname n ns chunks)
  show ?case
  proof (cases "node_size n")
    case None
    with "2.IH"(1) show ?thesis by simp
  next
    case (Some k)
    show ?thesis
    proof (cases "k < MIN_CHUNK_SIZE")
      case True
      obtain rest cn cs where mr: "merge_run ns [n] k = (rest, cn, cs)"
        by (cases "merge_run ns [n] k")
      from "2.IH"(2)[OF Some True mr[symmetric] refl] obtain more where
        "process_list src fname rest (mix_chunk src fname cn chunks)
           = mix_chunk src fname cn chunks @ more"
        by blast
      with Some True mr show ?thesis by (simp add: mix_chunk_def add_chunk_def)
    next
      case notsmall: False
      show ?thesis
      proof (cases "k > MAX_CHUNK_SIZE \<and> children n \<noteq> []")
        case True
        from "2.IH"(3)[OF Some notsmall True] obtain kids where
          k1: "process_list src fname (children n) chunks = chunks @ kids" by blast
        from "2.IH"(4)[OF Some notsmall True] obtain more where
          "process_list src fname ns (process_list src fname (children n) chunks)
             = process_list src fname (children n) chunks @ more"
          by blast
        with k1 Some notsmall True show ?thesis by simp
      next
        case False
        from "2.IH"(5)[OF Some notsmall False] obtain more where
          "process_list src fname ns (own_chunk src fname n chunks)
             = own_chunk src fname n chunks @ more"
          by blast
        with Some notsmall False show ?thesis by (auto simp add: own_chunk_def add_chunk_def)
      qed
    qed
  qed
qed

lemma large_node_size:
  "utf8_decode (node_text n) = Inr s \<Longrightarrow> MAX_CHUNK_SIZE < length s \<Longrightarrow>
   node_size n = Some (length s) \<and> MIN_CHUNK_SIZE \<le> length s"
  by (simp add: node_size_def MIN_CHUNK_SIZE_def MAX_CHUNK_SIZE_def)

text \<open>
  A large node behind an open accumulator: the last chunk of the siblings before it, the
  \<^verbatim>\<open>"mix"\<close> chunk of the accumulator, is replaced by the \<^verbatim>\<open>"mix"\<close> chunk of the accumulator
  with the node appended; the scan goes on behind the node.
\<close>

lemma large_node_absorbed:
  assumes "utf8_decode (node_text n) = Inr s" and "MAX_CHUNK_SIZE < length s"
    and "open_run pre \<noteq> []"
  shows "\<exists>c1 more.
           process_nodes src fname pre chunks
             = Inr (c1 @ [mix_record src fname (length c1) (open_run pre)])
         \<and> process_nodes src fname post
               (c1 @ [mix_record src fname (length c1) (open_run pre @ [n])])
             = Inr (c1 @ [mix_record src fname (length c1) (open_run pre @ [n])] @ more)
         \<and> process_nodes src fname (pre @ n # post) chunks
             = Inr (c1 @ [mix_record src fname (length c1) (open_run pre @ [n])] @ more)"
proof -
  from large_node_size[OF assms(1,2)]
  have sz: "node_size n = Some (length s) \<and> MIN_CHUNK_SIZE \<le> length s" .
  from process_list_append[of pre src fname chunks] assms(3) obtain c1 where
    c1: "process_list src fname pre chunks
           = c1 @ [mix_record src fname (length c1) (open_run pre)]"
    and ext: "\<forall>m k post. node_size m = Some k \<and> MIN_CHUNK_SIZE \<le> k \<longrightarrow>
                process_list src fname (pre @ m # post) chunks
                  = process_list src fname post
                      (c1 @ [mix_record src fname (length c1) (open_run pre @ [m])])"
    by blast
  let ?c = "c1 @ [mix_record src fname (length c1) (open_run pre @ [n])]"
  from ext sz have whole: "process_list src fname (pre @ n # post) chunks
                             = process_list src fname post ?c"
    by blast
  from process_list_extends[of src fname post ?c] obtain more where
    more: "process_list src fname post ?c = ?c @ more" by blast
  from c1 whole more show ?thesis by (auto simp add: process_nodes_list)
qed

definition c3_large :: node where
  "c3_large = ascii_node 10 2100 ''class_definition''
     [ascii_leaf 10 1050 ''function_definition'',
      ascii_leaf 1060 1050 ''function_definition'']"

definition c3_root :: node where
  "c3_root = ascii_node 0 2110 ''module'' [ascii_leaf 0 10 ''comment'', c3_large]"

text \<open>
  C3 as stated fails. The second child of the example root has 2100 characters (more than
  \<^verbatim>\<open>MAX_CHUNK_SIZE\<close>) and two children, but it follows a sibling of 10 characters: the
  inner loop appends it to the accumulator, the only chunk is a \<^verbatim>\<open>"mix"\<close> chunk over both
  siblings, and the large node's children are never chunked.
\<close>

theorem large_parent_after_small_sibling_counterexample:
  "utf8_decode (node_text c3_large) = Inr (replicate 2100 97)
   \<and> length (children c3_large) = 2
   \<and> get_chunks c3_root ''a.py'' =
       Inr [\<lparr>content = replicate 2110 97,
             metadata = \<lparr>md_id = 0, md_type = ''mix'',
                         md_start_point = (0, 0), md_end_point = (0, 2110),
                         md_file_name = ''a.py''\<rparr>\<rparr>]"
  by (simp add: get_chunks_list c3_root_def c3_large_def example_eval)

text \<open>
  C3, amended. Let a node \<open>n\<close> decode to more than \<^verbatim>\<open>MAX_CHUNK_SIZE\<close> characters and have
  at least one child, and let \<open>pre\<close> and \<open>post\<close> be the siblings before and after it.
  If the siblings before it leave no open accumulator, the chunks of the sibling list are
  the chunks of \<open>pre\<close>, then the chunks that the recursive call returns for the children of
  \<open>n\<close>, then the chunks of \<open>post\<close>: the node is replaced by the chunking of its children.
  If they leave an open accumulator, the node is appended to it: the chunks of the sibling
  list are those of \<open>pre\<close> with the last \<^verbatim>\<open>"mix"\<close> chunk extended to the end of \<open>n\<close>,
  followed by the chunks of \<open>post\<close>, and the children of \<open>n\<close> are not chunked.
\<close>

theorem large_parent_in_sibling_list:
  assumes "utf8_decode (node_text n) = Inr s"
    and "MAX_CHUNK_SIZE < length s"
    and "children n \<noteq> []"
  shows "(open_run pre = [] \<longrightarrow>
            (\<exists>c1 kids more.
               process_nodes source_code file_name pre chunks = Inr c1
             \<and> process_nodes source_code file_name (children n) c1 = Inr (c1 @ kids)
             \<and> process_nodes source_code file_name post (c1 @ kids) = Inr (c1 @ kids @ more)
             \<and> process_nodes source_code file_name (pre @ n # post) chunks
                 = Inr (c1 @ kids @ more)))
       \<and> (open_run pre \<noteq> [] \<longrightarrow>
            (\<exists>c1 more.
               process_nodes source_code file_name pre chunks
                 = Inr (c1 @ [mix_record source_code file_name (length c1) (open_run pre)])
             \<and> process_nodes source_code file_name post
                   (c1 @ [mix_record source_code file_name (length c1) (open_run pre @ [n])])
                 = Inr (c1 @ [mix_record source_code file_name (length c1) (open_run pre @ [n])]
                        @ more)
             \<and> process_nodes source_code file_name (pre @ n # post) chunks
                 = Inr (c1 @ [mix_record source_code file_name (length c1) (open_run pre @ [n])]
                        @ more)))"
proof (intro conjI impI)
  assume closed: "open_run pre = []"
  from large_node_size[OF assms(1,2)]
  have sz: "node_size n = Some (length s)" and big: "MIN_CHUNK_SIZE \<le> length s" by simp_all
  let ?c1 = "process_list source_code file_name pre chunks"
  from process_list_extends[of source_code file_name "children n" ?c1] obtain kids where
    kids: "process_list source_code file_name (children n) ?c1 = ?c1 @ kids" by blast
  from process_list_extends[of source_code file_name post "?c1 @ kids"] obtain more where
    more: "process_list source_code file_name post (?c1 @ kids) = (?c1 @ kids) @ more" by blast
  from process_list_append[of pre source_code file_name chunks] closed
  have "process_list source_code file_name (pre @ n # post) chunks
          = process_list source_code file_name (n # post) ?c1"
    by blast
  also have "\<dots> = process_list source_code file_name post
                       (process_list source_code file_name (children n) ?c1)"
    using sz big assms(2,3) by simp
  finally have "process_list source_code file_name (pre @ n # post) chunks
                  = ?c1 @ kids @ more"
    using kids more by simp
  with kids more show "\<exists>c1 kids more.
               process_nodes source_code file_name pre chunks = Inr c1
             \<and> process_nodes source_code file_name (children n) c1 = Inr (c1 @ kids)
             \<and> process_nodes source_code file_name post (c1 @ kids) = Inr (c1 @ kids @ more)
             \<and> process_nodes source_code file_name (pre @ n # post) chunks
                 = Inr (c1 @ kids @ more)"
    by (auto simp add: process_nodes_list)
next
  assume "open_run pre \<noteq> []"
  from large_node_absorbed[OF assms(1,2) this]
  show "\<exists>c1 more.
               process_nodes source_code file_name pre chunks
                 = Inr (c1 @ [mix_record source_code file_name (length c1) (open_run pre)])
             \<and> process_nodes source_code file_name post
                   (c1 @ [mix_record source_code file_name (length c1) (open_run pre @ [n])])
                 = Inr (c1 @ [mix_record source_code file_name (length c1) (open_run pre @ [n])]
                        @ more)
             \<and> process_nodes source_code file_name (pre @ n # post) chunks
                 = Inr (c1 @ [mix_record source_code file_name (length c1) (open_run pre @ [n])]
                        @ more)" .
qed

theorem large_parent_in_sibling_list_witness:
  "utf8_decode (node_text c3_large) = Inr (replicate 2100 97)
   \<and> MAX_CHUNK_SIZE < length (replicate 2100 (97::nat))
   \<and> children c3_large \<noteq> []
   \<and> open_run [] = []
   \<and> (\<exists>c1 kids more.
         process_nodes (replicate 2110 97) ''a.py'' [] [] = Inr c1
       \<and> process_nodes (replicate 2110 97) ''a.py'' (children c3_large) c1 = Inr (c1 @ kids)
       \<and> process_nodes (replicate 2110 97) ''a.py'' [] (c1 @ kids) = Inr (c1 @ kids @ more)
       \<and> process_nodes (replicate 2110 97) ''a.py'' ([] @ c3_large # []) []
           = Inr (c1 @ kids @ more))
   \<and> open_run [ascii_leaf 0 10 ''comment''] \<noteq> []
   \<and> (\<exists>c1 more.
         process_nodes (replicate 2110 97) ''a.py'' [ascii_leaf 0 10 ''comment''] []
           = Inr (c1 @ [mix_record (replicate 2110 97) ''a.py'' (length c1) (open_run [ascii_leaf 0 10 ''comment''])])
       \<and> process_nodes (replicate 2110 97) ''a.py'' []
             (c1 @ [mix_record (replicate 2110 97) ''a.py'' (length c1) (open_run [ascii_leaf 0 10 ''comment''] @ [c3_large])])
           = Inr (c1 @ [mix_record (replicate 2110 97) ''a.py'' (length c1) (open_run [ascii_leaf 0 10 ''comment''] @ [c3_large])]
                  @ more)
       \<and> process_nodes (replicate 2110 97) ''a.py'' ([ascii_leaf 0 10 ''comment''] @ c3_large # []) []
           = Inr (c1 @ [mix_record (replicate 2110 97) ''a.py'' (length c1) (open_run [ascii_leaf 0 10 ''comment''] @ [c3_large])]
                  @ more))"
proof -
  have h1: "utf8_decode (node_text c3_large) = Inr (replicate 2100 97)"
    by (simp add: c3_large_def example_eval)
  have h2: "MAX_CHUNK_SIZE < length (replicate 2100 (97::nat))"
    by (simp add: MAX_CHUNK_SIZE_def)
  have h3: "children c3_large \<noteq> []"
    by (simp add: c3_large_def ascii_leaf_def ascii_node_def)
  have o1: "open_run [] = []" by simp
  have o2: "open_run [ascii_leaf 0 10 ''comment''] \<noteq> []"
    by (simp add: example_eval)
  note t = large_parent_in_sibling_list[OF h1 h2 h3, where source_code = "replicate 2110 97"
      and file_name = "''a.py''" and chunks = "[]" and post = "[]"]
  from t[where pre = "[]"] o1
  have a: "(\<exists>c1 kids more.
         process_nodes (replicate 2110 97) ''a.py'' [] [] = Inr c1
       \<and> process_nodes (replicate 2110 97) ''a.py'' (children c3_large) c1 = Inr (c1 @ kids)
       \<and> process_nodes (replicate 2110 97) ''a.py'' [] (c1 @ kids) = Inr (c1 @ kids @ more)
       \<and> process_nodes (replicate 2110 97) ''a.py'' ([] @ c3_large # []) []
           = Inr (c1 @ kids @ more))"
    by blast
  from t[where pre = "[ascii_leaf 0 10 ''comment'']"] o2
  have b: "(\<exists>c1 more.
         process_nodes (replicate 2110 97) ''a.py'' [ascii_leaf 0 10 ''comment''] []
           = Inr (c1 @ [mix_record (replicate 2110 97) ''a.py'' (length c1) (open_run [ascii_leaf 0 10 ''comment''])])
       \<and> process_nodes (replicate 2110 97) ''a.py'' []
             (c1 @ [mix_record (replicate 2110 97) ''a.py'' (length c1) (open_run [ascii_leaf 0 10 ''comment''] @ [c3_large])])
           = Inr (c1 @ [mix_record (replicate 2110 97) ''a.py'' (length c1) (open_run [ascii_leaf 0 10 ''comment''] @ [c3_large])]
                  @ more)
       \<and> process_nodes (replicate 2110 97) ''a.py'' ([ascii_leaf 0 10 ''comment''] @ c3_large # []) []
           = Inr (c1 @ [mix_record (replicate 2110 97) ''a.py'' (length c1) (open_run [ascii_leaf 0 10 ''comment''] @ [c3_large])]
                  @ more))"
    by blast
  from h1 h2 h3 o1 o2 a b show ?thesis by blast
qed

definition c8_large :: node where
  "c8_large = ascii_leaf 10 2100 ''string''"

definition c8_root :: node where
  "c8_root = ascii_node 0 2110 ''module'' [ascii_leaf 0 10 ''comment'', c8_large]"

text \<open>
  C8 as stated fails. The second child of the example root is a leaf of 2100 characters
  that follows a sibling of 10 characters: the only chunk is of type \<^verbatim>\<open>"mix"\<close> and spans
  both siblings; no chunk carries the leaf's own type or just its span.
\<close>

theorem large_leaf_after_small_sibling_counterexample:
  "utf8_decode (node_text c8_large) = Inr (replicate 2100 97)
   \<and> children c8_large = []
   \<and> node_type c8_large = ''string''
   \<and> get_chunks c8_root ''a.py'' =
       Inr [\<lparr>content = replicate 2110 97,
             metadata = \<lparr>md_id = 0, md_type = ''mix'',
                         md_start_point = (0, 0), md_end_point = (0, 2110),
                         md_file_name = ''a.py''\<rparr>\<rparr>]"
  by (simp add: get_chunks_list c8_root_def c8_large_def example_eval)

text \<open>
  C8, amended. Let a node \<open>n\<close> decode to more than \<^verbatim>\<open>MAX_CHUNK_SIZE\<close> characters and have
  no children, and let \<open>pre\<close> and \<open>post\<close> be the siblings before and after it. If the
  siblings before it leave no open accumulator, the chunks of the sibling list are the
  chunks of \<open>pre\<close>, then exactly one chunk for the span of \<open>n\<close> with the type of \<open>n\<close>, then
  the chunks of \<open>post\<close>. If they leave an open accumulator, the node is appended to it:
  the chunks of the sibling list are those of \<open>pre\<close> with the last \<^verbatim>\<open>"mix"\<close> chunk extended
  to the end of \<open>n\<close>, followed by the chunks of \<open>post\<close>.
\<close>

theorem large_leaf_in_sibling_list:
  assumes "utf8_decode (node_text n) = Inr s"
    and "MAX_CHUNK_SIZE < length s"
    and "children n = []"
  shows "(open_run pre = [] \<longrightarrow>
            (\<exists>c1 more.
               process_nodes source_code file_name pre chunks = Inr c1
             \<and> process_nodes source_code file_name post
                   (c1 @ [\<lparr>content = py_slice source_code (start_byte n) (end_byte n),
                           metadata = \<lparr>md_id = length c1, md_type = node_type n,
                                       md_start_point = start_point n,
                                       md_end_point = end_point n,
                                       md_file_name = file_name\<rparr>\<rparr>])
                 = Inr (c1 @ [\<lparr>content = py_slice source_code (start_byte n) (end_byte n),
                               metadata = \<lparr>md_id = length c1, md_type = node_type n,
                                           md_start_point = start_point n,
                                           md_end_point = end_point n,
                                           md_file_name = file_name\<rparr>\<rparr>] @ more)
             \<and> process_nodes source_code file_name (pre @ n # post) chunks
                 = Inr (c1 @ [\<lparr>content = py_slice source_code (start_byte n) (end_byte n),
                               metadata = \<lparr>md_id = length c1, md_type = node_type n,
                                           md_start_point = start_point n,
                                           md_end_point = end_point n,
                                           md_file_name = file_name\<rparr>\<rparr>] @ more)))
       \<and> (open_run pre \<noteq> [] \<longrightarrow>
            (\<exists>c1 more.
               process_nodes source_code file_name pre chunks
                 = Inr (c1 @ [mix_record source_code file_name (length c1) (open_run pre)])
             \<and> process_nodes source_code file_name post
                   (c1 @ [mix_record source_code file_name (length c1) (open_run pre @ [n])])
                 = Inr (c1 @ [mix_record source_code file_name (length c1) (open_run pre @ [n])]
                        @ more)
             \<and> process_nodes source_code file_name (pre @ n # post) chunks
                 = Inr (c1 @ [mix_record source_code file_name (length c1) (open_run pre @ [n])]
                        @ more)))"
proof (intro conjI impI)
  assume closed: "open_run pre = []"
  from large_node_size[OF assms(1,2)]
  have sz: "node_size n = Some (length s)" and big: "MIN_CHUNK_SIZE \<le> length s" by simp_all
  let ?c1 = "process_list source_code file_name pre chunks"
  let ?own = "\<lparr>content = py_slice source_code (start_byte n) (end_byte n),
               metadata = \<lparr>md_id = length ?c1, md_type = node_type n,
                           md_start_point = start_point n, md_end_point = end_point n,
                           md_file_name = file_name\<rparr>\<rparr>"
  from process_list_extends[of source_code file_name post "?c1 @ [?own]"] obtain more where
    more: "process_list source_code file_name post (?c1 @ [?own]) = (?c1 @ [?own]) @ more"
    by blast
  from process_list_append[of pre source_code file_name chunks] closed
  have "process_list source_code file_name (pre @ n # post) chunks
          = process_list source_code file_name (n # post) ?c1"
    by blast
  also have "\<dots> = process_list source_code file_name post (?c1 @ [?own])"
    using sz big assms(3) by (simp add: own_chunk_def add_chunk_def)
  finally have "process_list source_code file_name (pre @ n # post) chunks
                  = ?c1 @ [?own] @ more"
    using more by simp
  with more show "\<exists>c1 more.
               process_nodes source_code file_name pre chunks = Inr c1
             \<and> process_nodes source_code file_name post
                   (c1 @ [\<lparr>content = py_slice source_code (start_byte n) (end_byte n),
                           metadata = \<lparr>md_id = length c1, md_type = node_type n,
                                       md_start_point = start_point n,
                                       md_end_point = end_point n,
                                       md_file_name = file_name\<rparr>\<rparr>])
                 = Inr (c1 @ [\<lparr>content = py_slice source_code (start_byte n) (end_byte n),
                               metadata = \<lparr>md_id = length c1, md_type = node_type n,
                                           md_start_point = start_point n,
                                           md_end_point = end_point n,
                                           md_file_name = file_name\<rparr>\<rparr>] @ more)
             \<and> process_nodes source_code file_name (pre @ n # post) chunks
                 = Inr (c1 @ [\<lparr>content = py_slice source_code (start_byte n) (end_byte n),
                               metadata = \<lparr>md_id = length c1, md_type = node_type n,
                                           md_start_point = start_point n,
                                           md_end_point = end_point n,
                                           md_file_name = file_name\<rparr>\<rparr>] @ more)"
    by (auto simp add: process_nodes_list)
next
  assume "open_run pre \<noteq> []"
  from large_node_absorbed[OF assms(1,2) this]
  show "\<exists>c1 more.
               process_nodes source_code file_name pre chunks
                 = Inr (c1 @ [mix_record source_code file_name (length c1) (open_run pre)])
             \<and> process_nodes source_code file_name post
                   (c1 @ [mix_record source_code file_name (length c1) (open_run pre @ [n])])
                 = Inr (c1 @ [mix_record source_code file_name (length c1) (open_run pre @ [n])]
                        @ more)
             \<and> process_nodes source_code file_name (pre @ n # post) chunks
                 = Inr (c1 @ [mix_record source_code file_name (length c1) (open_run pre @ [n])]
                        @ more)" .
qed

theorem large_leaf_in_sibling_list_witness:
  "utf8_decode (node_text c8_large) = Inr (replicate 2100 97)
   \<and> MAX_CHUNK_SIZE < length (replicate 2100 (97::nat))
   \<and> children c8_large = []
   \<and> open_run [] = []
   \<and> (\<exists>c1 more.
         process_nodes (replicate 2110 97) ''a.py'' [] [] = Inr c1
       \<and> process_nodes (replicate 2110 97) ''a.py'' []
             (c1 @ [\<lparr>content = py_slice (replicate 2110 97) (start_byte c8_large) (end_byte c8_large),
                   metadata = \<lparr>md_id = length c1, md_type = node_type c8_large,
                               md_start_point = start_point c8_large,
                               md_end_point = end_point c8_large,
                               md_file_name = ''a.py''\<rparr>\<rparr>])
           = Inr (c1 @ [\<lparr>content = py_slice (replicate 2110 97) (start_byte c8_large) (end_byte c8_large),
                   metadata = \<lparr>md_id = length c1, md_type = node_type c8_large,
                               md_start_point = start_point c8_large,
                               md_end_point = end_point c8_large,
                               md_file_name = ''a.py''\<rparr>\<rparr>] @ more)
       \<and> process_nodes (replicate 2110 97) ''a.py'' ([] @ c8_large # []) []
           = Inr (c1 @ [\<lparr>content = py_slice (replicate 2110 97) (start_byte c8_large) (end_byte c8_large),
                   metadata = \<lparr>md_id = length c1, md_type = node_type c8_large,
                               md_start_point = start_point c8_large,
                               md_end_point = end_point c8_large,
                               md_file_name = ''a.py''\<rparr>\<rparr>] @ more))
   \<and> open_run [ascii_leaf 0 10 ''comment''] \<noteq> []
   \<and> (\<exists>c1 more.
         process_nodes (replicate 2110 97) ''a.py'' [ascii_leaf 0 10 ''comment''] []
           = Inr (c1 @ [mix_record (replicate 2110 97) ''a.py'' (length c1) (open_run [ascii_leaf 0 10 ''comment''])])
       \<and> process_nodes (replicate 2110 97) ''a.py'' []
             (c1 @ [mix_record (replicate 2110 97) ''a.py'' (length c1) (open_run [ascii_leaf 0 10 ''comment''] @ [c8_large])])
           = Inr (c1 @ [mix_record (replicate 2110 97) ''a.py'' (length c1) (open_run [ascii_leaf 0 10 ''comment''] @ [c8_large])]
                  @ more)
       \<and> process_nodes (replicate 2110 97) ''a.py'' ([ascii_leaf 0 10 ''comment''] @ c8_large # []) []
           = Inr (c1 @ [mix_record (replicate 2110 97) ''a.py'' (length c1) (open_run [ascii_leaf 0 10 ''comment''] @ [c8_large])]
                  @ more))"
proof -
  have h1: "utf8_decode (node_text c8_large) = Inr (replicate 2100 97)"
    by (simp add: c8_large_def example_eval)
  have h2: "MAX_CHUNK_SIZE < length (replicate 2100 (97::nat))"
    by (simp add: MAX_CHUNK_SIZE_def)
  have h3: "children c8_large = []"
    by (simp add: c8_large_def ascii_leaf_def ascii_node_def)
  have o1: "open_run [] = []" by simp
  have o2: "open_run [ascii_leaf 0 10 ''comment''] \<noteq> []"
    by (simp add: example_eval)
  note t = large_leaf_in_sibling_list[OF h1 h2 h3, where source_code = "replicate 2110 97"
      and file_name = "''a.py''" and chunks = "[]" and post = "[]"]
  from t[where pre = "[]"] o1
  have a: "(\<exists>c1 more.
         process_nodes (replicate 2110 97) ''a.py'' [] [] = Inr c1
       \<and> process_nodes (replicate 2110 97) ''a.py'' []
             (c1 @ [\<lparr>content = py_slice (replicate 2110 97) (start_byte c8_large) (end_byte c8_large),
                   metadata = \<lparr>md_id = length c1, md_type = node_type c8_large,
                               md_start_point = start_point c8_large,
                               md_end_point = end_point c8_large,
                               md_file_name = ''a.py''\<rparr>\<rparr>])
           = Inr (c1 @ [\<lparr>content = py_slice (replicate 2110 97) (start_byte c8_large) (end_byte c8_large),
                   metadata = \<lparr>md_id = length c1, md_type = node_type c8_large,
                               md_start_point = start_point c8_large,
                               md_end_point = end_point c8_large,
                               md_file_name = ''a.py''\<rparr>\<rparr>] @ more)
       \<and> process_nodes (replicate 2110 97) ''a.py'' ([] @ c8_large # []) []
           = Inr (c1 @ [\<lparr>content = py_slice (replicate 2110 97) (start_byte c8_large) (end_byte c8_large),
                   metadata = \<lparr>md_id = length c1, md_type = node_type c8_large,
                               md_start_point = start_point c8_large,
                               md_end_point = end_point c8_large,
                               md_file_name = ''a.py''\<rparr>\<rparr>] @ more))"
    by blast
  from t[where pre = "[ascii_leaf 0 10 ''comment'']"] o2
  have b: "(\<exists>c1 more.
         process_nodes (replicate 2110 97) ''a.py'' [ascii_leaf 0 10 ''comment''] []
           = Inr (c1 @ [mix_record (replicate 2110 97) ''a.py'' (length c1) (open_run [ascii_leaf 0 10 ''comment''])])
       \<and> process_nodes (replicate 2110 97) ''a.py'' []
             (c1 @ [mix_record (replicate 2110 97) ''a.py'' (length c1) (open_run [ascii_leaf 0 10 ''comment''] @ [c8_large])])
           = Inr (c1 @ [mix_record (replicate 2110 97) ''a.py'' (length c1) (open_run [ascii_leaf 0 10 ''comment''] @ [c8_large])]
                  @ more)
       \<and> process_nodes (replicate 2110 97) ''a.py'' ([ascii_leaf 0 10 ''comment''] @ c8_large # []) []
           = Inr (c1 @ [mix_record (replicate 2110 97) ''a.py'' (length c1) (open_run [ascii_leaf 0 10 ''comment''] @ [c8_large])]
                  @ more))"
    by blast
  from h1 h2 h3 o1 o2 a b show ?thesis by blast
qed

section \<open>Recursion depth\<close>

text \<open>
  \<^verbatim>\<open>process_nodes\<close> calls itself for the children of a large node (line 98), and the only
  exception that \<^verbatim>\<open>get_chunks\<close> catches is \<^verbatim>\<open>UnicodeDecodeError\<close>. CPython admits a bounded
  number of nested calls (1000 frames by default, the callers of \<^verbatim>\<open>get_chunks\<close> included)
  and raises \<^verbatim>\<open>RecursionError\<close> at a call beyond it.

  The functions below are \<^verbatim>\<open>add_chunk\<close>, lines 88-93, \<^verbatim>\<open>process_nodes\<close> and \<^verbatim>\<open>get_chunks\<close> once
  more, with that bound: \<open>frames\<close> is the number of further nested calls that the
  interpreter admits inside the running function. A call of \<^verbatim>\<open>add_chunk\<close> or of
  \<^verbatim>\<open>process_nodes\<close> takes one frame. The frames that \<^verbatim>\<open>logging.warning\<close> takes at a decode
  failure belong to the logging library and are not counted, so the interpreter raises
  \<^verbatim>\<open>RecursionError\<close> wherever these functions do, and possibly earlier.
\<close>

definition add_chunk_limited ::
  "nat \<Rightarrow> pystr \<Rightarrow> string \<Rightarrow> chunk list \<Rightarrow> nat \<Rightarrow> nat \<Rightarrow> point \<Rightarrow> point \<Rightarrow> string
     \<Rightarrow> error + chunk list" where
  "add_chunk_limited frames source_code file_name chunks sb eb sp ep chunk_type =
     (if frames = 0 then Inl RecursionError
      else Inr (add_chunk source_code file_name chunks sb eb sp ep chunk_type))"

definition flush_chunk_limited ::
  "nat \<Rightarrow> pystr \<Rightarrow> string \<Rightarrow> node list \<Rightarrow> chunk list \<Rightarrow> error + chunk list" where
  "flush_chunk_limited frames source_code file_name current_chunk_nodes chunks =
     (if current_chunk_nodes \<noteq> [] then
        (case py_index current_chunk_nodes 0 of
           Inl e \<Rightarrow> Inl e
         | Inr first_node \<Rightarrow>
             (case py_index current_chunk_nodes (- 1) of
                Inl e \<Rightarrow> Inl e
              | Inr last_node \<Rightarrow>
                  add_chunk_limited frames source_code file_name chunks
                    (start_byte first_node) (end_byte last_node)
                    (start_point first_node) (end_point last_node) ''mix''))
      else Inr chunks)"

function process_loop_limited ::
  "nat \<Rightarrow> pystr \<Rightarrow> string \<Rightarrow> node list \<Rightarrow> nat \<Rightarrow> node list \<Rightarrow> nat \<Rightarrow> chunk list
     \<Rightarrow> error + chunk list" where
  "process_loop_limited frames source_code file_name nodes i
       current_chunk_nodes current_chunk_size chunks =
     (if i < length nodes then
        (case py_index nodes (int i) of
           Inl e \<Rightarrow> Inl e
         | Inr node \<Rightarrow>
             (case utf8_decode (node_text node) of
                Inl e \<Rightarrow>
                  if e = UnicodeDecodeError
                  then process_loop_limited frames source_code file_name nodes (i + 1)
                         current_chunk_nodes current_chunk_size chunks
                  else Inl e
              | Inr s \<Rightarrow>
                  if current_chunk_size + length s < MIN_CHUNK_SIZE then
                    (case inner_loop nodes (i + 1) (current_chunk_nodes @ [node])
                            (current_chunk_size + length s) of
                       Inl e \<Rightarrow> Inl e
                     | Inr (i', nodes', size') \<Rightarrow>
                         (case flush_chunk_limited frames source_code file_name nodes' chunks of
                            Inl e \<Rightarrow> Inl e
                          | Inr chunks' \<Rightarrow>
                              process_loop_limited frames source_code file_name nodes i' [] 0
                                chunks'))
                  else if length s > MAX_CHUNK_SIZE \<and> length (children node) > 0 then
                    (case (if frames = 0 then Inl RecursionError
                           else process_loop_limited (frames - 1) source_code file_name
                                  (children node) 0 [] 0 chunks) of
                       Inl e \<Rightarrow> Inl e
                     | Inr chunks' \<Rightarrow>
                         process_loop_limited frames source_code file_name nodes (i + 1)
                           current_chunk_nodes current_chunk_size chunks')
                  else
                    (case add_chunk_limited frames source_code file_name chunks
                            (start_byte node) (end_byte node)
                            (start_point node) (end_point node) (node_type node) of
                       Inl e \<Rightarrow> Inl e
                     | Inr chunks' \<Rightarrow>
                         process_loop_limited frames source_code file_name nodes (i + 1)
                           current_chunk_nodes current_chunk_size chunks')))
      else Inr chunks)"
  by pat_completeness auto
termination
  by (relation "measures
         [\<lambda>(frames, src, fname, nodes, i, cn, cs, chunks). size_list size nodes,
          \<lambda>(frames, src, fname, nodes, i, cn, cs, chunks). length nodes - i]")
     (auto dest!: inner_loop_cursor simp: py_index_def size_children_nth)

declare process_loop_limited.simps [simp del]

definition get_chunks_limited :: "nat \<Rightarrow> node \<Rightarrow> string \<Rightarrow> error + chunk list" where
  "get_chunks_limited frames root_node file_name =
     (case utf8_decode (node_text root_node) of
        Inl e \<Rightarrow> if e = UnicodeDecodeError then Inr [] else Inl e
      | Inr source_code \<Rightarrow>
          if frames = 0 then Inl RecursionError
          else process_loop_limited (frames - 1) source_code file_name
                 (children root_node) 0 [] 0 [])"
text \<open>
  \<open>forest_height\<close> is the number of levels of a list of sibling trees. Whenever the bounded
  functions return, they return the chunks of the unbounded ones; the only exception that
  can leave them is \<^verbatim>\<open>RecursionError\<close>, and only on a tree with more levels than frames.
\<close>

fun node_height :: "node \<Rightarrow> nat" where
  "node_height (Node t sb eb sp ep ty kids) =
     Suc (foldr (\<lambda>k h. max (node_height k) h) kids 0)"

definition forest_height :: "node list \<Rightarrow> nat" where
  "forest_height ns = foldr (\<lambda>k h. max (node_height k) h) ns 0"

lemma forest_height_Cons:
  "forest_height (n # ns) = max (node_height n) (forest_height ns)"
  by (simp add: forest_height_def)

lemma node_height_children: "node_height n = Suc (forest_height (children n))"
  by (cases n) (simp add: forest_height_def)

lemma forest_height_drop: "forest_height (drop k ns) \<le> forest_height ns"
proof (induction ns arbitrary: k)
  case Nil
  then show ?case by simp
next
  case (Cons n ns)
  show ?case
  proof (cases k)
    case 0
    then show ?thesis by simp
  next
    case (Suc j)
    have "forest_height (drop j ns) \<le> forest_height ns" by (rule Cons.IH)
    with Suc show ?thesis by (simp add: forest_height_Cons)
  qed
qed

lemma flush_chunk_limited_nonempty:
  "cn \<noteq> [] \<Longrightarrow>
   flush_chunk_limited frames src fname cn chunks
     = (if frames = 0 then Inl RecursionError else Inr (mix_chunk src fname cn chunks))"
  by (simp add: flush_chunk_limited_def add_chunk_limited_def mix_chunk_def
      py_index_first py_index_last)

lemma process_loop_limited_result:
  "drop i nodes = ns \<Longrightarrow> i \<le> length nodes \<Longrightarrow>
   process_loop_limited frames src fname nodes i [] 0 chunks
     = Inr (process_list src fname ns chunks)
   \<or> (process_loop_limited frames src fname nodes i [] 0 chunks = Inl RecursionError
       \<and> frames < forest_height ns)"
proof (induction src fname ns chunks arbitrary: nodes i frames rule: process_list.induct)
  case (1 src fname chunks)
  then have "\<not> i < length nodes" by simp
  then show ?case by (simp add: process_loop_limited.simps[of frames src fname nodes i])
next
  case (2 src fname n ns chunks)
  from "2.prems" have i: "i < length nodes"
    by (metis drop_eq_Nil2 list.distinct(1) not_le_imp_less)
  have ni: "nodes ! i = n" and dr: "drop (i + 1) nodes = ns"
    using "2.prems"(1) i by (simp_all add: Cons_nth_drop_Suc[symmetric])
  have idx: "py_index nodes (int i) = Inr n" using py_index_nth[OF i] ni by simp
  have le: "i + 1 \<le> length nodes" using i by simp
  have pos: "0 < forest_height (n # ns)"
    by (simp add: forest_height_Cons node_height_children)
  have mono: "forest_height ns \<le> forest_height (n # ns)"
    by (simp add: forest_height_Cons)
  show ?case
  proof (cases "utf8_decode (node_text n)")
    case (Inl e)
    then have e: "e = UnicodeDecodeError" by (rule utf8_decode_error)
    have none: "node_size n = None" using Inl by (rule node_size_None)
    have step: "process_loop_limited frames src fname nodes i [] 0 chunks
            = process_loop_limited frames src fname nodes (i + 1) [] 0 chunks"
      using i idx Inl e by (simp add: process_loop_limited.simps[of frames src fname nodes i])
    from "2.IH"(1)[OF none dr le, of frames] step none mono show ?thesis by auto
  next
    case (Inr s)
    have some: "node_size n = Some (length s)" using Inr by (rule node_size_Some)
    show ?thesis
    proof (cases "length s < MIN_CHUNK_SIZE")
      case True
      obtain rest cn cs where mr: "merge_run ns [n] (length s) = (rest, cn, cs)"
        by (cases "merge_run ns [n] (length s)")
      from inner_loop_merge_run[OF le, of "[n]" "length s"] mr dr obtain i' where
        i': "i + 1 \<le> i'" "i' \<le> length nodes"
        "inner_loop nodes (i + 1) [n] (length s) = Inr (i', cn, cs)"
        "rest = drop i' nodes"
        by auto
      from merge_run_extends[OF mr] have ne: "cn \<noteq> []" by auto
      from merge_run_suffix[OF mr] forest_height_drop
      have rmono: "forest_height rest \<le> forest_height ns" by auto
      show ?thesis
      proof (cases "frames = 0")
        case True
        have "process_loop_limited frames src fname nodes i [] 0 chunks = Inl RecursionError"
          using i idx Inr \<open>length s < MIN_CHUNK_SIZE\<close> i'(3) flush_chunk_limited_nonempty[OF ne] True
          by (simp add: process_loop_limited.simps[of 0 src fname nodes i])
        with True pos show ?thesis by simp
      next
        case False
        have step: "process_loop_limited frames src fname nodes i [] 0 chunks
              = process_loop_limited frames src fname nodes i' [] 0
                  (mix_chunk src fname cn chunks)"
          using i idx Inr True i'(3) flush_chunk_limited_nonempty[OF ne] False
          by (simp add: process_loop_limited.simps[of frames src fname nodes i])
        from "2.IH"(2)[OF some True mr[symmetric] refl i'(4)[symmetric] i'(2), of frames]
          step some True mr rmono mono
        show ?thesis by auto
      qed
    next
      case notsmall: False
      show ?thesis
      proof (cases "length s > MAX_CHUNK_SIZE \<and> children n \<noteq> []")
        case True
        show ?thesis
        proof (cases "frames = 0")
          case z: True
          have "process_loop_limited frames src fname nodes i [] 0 chunks = Inl RecursionError"
            using i idx Inr notsmall True z
            by (simp add: process_loop_limited.simps[of 0 src fname nodes i])
          with z pos show ?thesis by simp
        next
          case nz: False
          from "2.IH"(3)[OF some notsmall True, of 0 "children n" "frames - 1"]
          have kids: "process_loop_limited (frames - 1) src fname (children n) 0 [] 0 chunks
                        = Inr (process_list src fname (children n) chunks)
                  \<or> (process_loop_limited (frames - 1) src fname (children n) 0 [] 0 chunks
                        = Inl RecursionError
                      \<and> frames - 1 < forest_height (children n))"
            by simp
          show ?thesis
          proof (cases "process_loop_limited (frames - 1) src fname (children n) 0 [] 0 chunks
                        = Inr (process_list src fname (children n) chunks)")
            case ok: True
            have step: "process_loop_limited frames src fname nodes i [] 0 chunks
                = process_loop_limited frames src fname nodes (i + 1) [] 0
                    (process_list src fname (children n) chunks)"
              using i idx Inr notsmall True nz ok
              by (simp add: process_loop_limited.simps[of frames src fname nodes i])
            from "2.IH"(4)[OF some notsmall True dr le, of frames] step some notsmall True mono
            show ?thesis by auto
          next
            case False
            with kids have
              r: "process_loop_limited (frames - 1) src fname (children n) 0 [] 0 chunks
                    = Inl RecursionError"
              and h: "frames - 1 < forest_height (children n)"
              by simp_all
            have "process_loop_limited frames src fname nodes i [] 0 chunks = Inl RecursionError"
              using i idx Inr notsmall True nz r
              by (simp add: process_loop_limited.simps[of frames src fname nodes i])
            moreover have "frames < forest_height (n # ns)"
              using h nz by (simp add: forest_height_Cons node_height_children)
            ultimately show ?thesis by simp
          qed
        qed
      next
        case False
        show ?thesis
        proof (cases "frames = 0")
          case z: True
          have "process_loop_limited frames src fname nodes i [] 0 chunks = Inl RecursionError"
            using i idx Inr notsmall False z
            by (auto simp add: process_loop_limited.simps[of 0 src fname nodes i]
                add_chunk_limited_def)
          with z pos show ?thesis by simp
        next
          case nz: False
          have step: "process_loop_limited frames src fname nodes i [] 0 chunks
                = process_loop_limited frames src fname nodes (i + 1) [] 0
                    (own_chunk src fname n chunks)"
            using i idx Inr notsmall False nz
            by (auto simp add: process_loop_limited.simps[of frames src fname nodes i]
                add_chunk_limited_def own_chunk_def)
          from "2.IH"(5)[OF some notsmall False dr le, of frames] step some notsmall False mono
          show ?thesis by auto
        qed
      qed
    qed
  qed
qed

lemma get_chunks_limited_result:
  "get_chunks_limited frames root_node fname = get_chunks root_node fname
   \<or> (get_chunks_limited frames root_node fname = Inl RecursionError
       \<and> frames \<le> forest_height (children root_node))"
proof (cases "utf8_decode (node_text root_node)")
  case (Inl e)
  then show ?thesis by (simp add: get_chunks_limited_def get_chunks_def)
next
  case (Inr src)
  show ?thesis
  proof (cases "frames = 0")
    case True
    with Inr show ?thesis by (simp add: get_chunks_limited_def)
  next
    case False
    from process_loop_limited_result[of 0 "children root_node" "children root_node"
        "frames - 1" src fname "[]"]
    have "process_loop_limited (frames - 1) src fname (children root_node) 0 [] 0 []
            = Inr (process_list src fname (children root_node) [])
          \<or> (process_loop_limited (frames - 1) src fname (children root_node) 0 [] 0 []
                = Inl RecursionError
              \<and> frames - 1 < forest_height (children root_node))"
      by simp
    with Inr False show ?thesis
      by (auto simp add: get_chunks_limited_def get_chunks_list)
  qed
qed
lemma get_chunks_limited_enough:
  "forest_height (children root_node) < frames \<Longrightarrow>
   get_chunks_limited frames root_node fname = get_chunks root_node fname"
  using get_chunks_limited_result[of frames root_node fname] by auto

text \<open>
  The failing input is the tree of a sum of \<open>j + 1\<close> terms, \<^verbatim>\<open>a + a + ... + a\<close>, all on one
  line (\<open>4 * j + 1\<close> bytes). The parser nests the sum to the left: the first child of each
  \<^verbatim>\<open>binary_operator\<close> is the sum of the terms before the last \<^verbatim>\<open>+\<close>.
\<close>

definition sum_text :: "nat \<Rightarrow> byte list" where
  "sum_text j = 0x61 # concat (replicate j [0x20, 0x2B, 0x20, 0x61])"

fun sum_tree :: "nat \<Rightarrow> node" where
  "sum_tree 0 = Node (sum_text 0) 0 1 (0, 0) (0, 1) ''identifier'' []"
| "sum_tree (Suc j) =
     Node (sum_text (Suc j)) 0 (4 * j + 5) (0, 0) (0, 4 * j + 5) ''binary_operator''
       [sum_tree j,
        Node [0x2B] (4 * j + 2) (4 * j + 3) (0, 4 * j + 2) (0, 4 * j + 3) ''+'' [],
        Node [0x61] (4 * j + 4) (4 * j + 5) (0, 4 * j + 4) (0, 4 * j + 5) ''identifier'' []]"

definition sum_root :: "nat \<Rightarrow> node" where
  "sum_root j =
     Node (sum_text j) 0 (4 * j + 1) (0, 0) (0, 4 * j + 1) ''module''
       [Node (sum_text j) 0 (4 * j + 1) (0, 0) (0, 4 * j + 1) ''expression_statement''
          [sum_tree j]]"

lemma length_sum_text: "length (sum_text j) = 4 * j + 1"
  by (induction j) (simp_all add: sum_text_def)

lemma sum_text_decodes: "utf8_decode (sum_text j) = Inr (map unat (sum_text j))"
proof (rule utf8_decode_ascii)
  have "set (sum_text j) \<subseteq> {0x61, 0x20, 0x2B}"
    by (induction j) (auto simp add: sum_text_def)
  then show "\<forall>b \<in> set (sum_text j). b < 0x80" by auto
qed

lemma node_text_sum_tree: "node_text (sum_tree j) = sum_text j"
  by (cases j) simp_all

text \<open>
  A node of more than \<^verbatim>\<open>MAX_CHUNK_SIZE\<close> characters with children, first in its sibling
  list: the call for the children is made before anything else, and its
  \<^verbatim>\<open>RecursionError\<close> ends the caller too.
\<close>

lemma large_first_node_overflows:
  assumes "utf8_decode (node_text n) = Inr s" and "MAX_CHUNK_SIZE < length s"
    and "children n \<noteq> []"
    and "frames = 0
         \<or> process_loop_limited (frames - 1) src fname (children n) 0 [] 0 chunks
              = Inl RecursionError"
  shows "process_loop_limited frames src fname (n # rest) 0 [] 0 chunks = Inl RecursionError"
proof -
  have idx: "py_index (n # rest) (int 0) = Inr n" by (simp add: py_index_def)
  have ns: "\<not> length s < MIN_CHUNK_SIZE"
    using assms(2) by (simp add: MIN_CHUNK_SIZE_def MAX_CHUNK_SIZE_def)
  show ?thesis
  proof (cases "frames = 0")
    case True
    with idx ns assms(1,2,3) show ?thesis
      by (simp add: process_loop_limited.simps[of 0 src fname "n # rest" 0])
  next
    case False
    with assms(4) have "process_loop_limited (frames - 1) src fname (children n) 0 [] 0 chunks
              = Inl RecursionError" by simp
    with False idx ns assms(1,2,3) show ?thesis
      by (simp add: process_loop_limited.simps[of frames src fname "n # rest" 0])
  qed
qed

lemma sum_tree_overflows:
  "frames + 512 \<le> j \<Longrightarrow>
   process_loop_limited frames src fname (sum_tree j # rest) 0 [] 0 chunks = Inl RecursionError"
proof (induction frames arbitrary: j rest)
  case 0
  then obtain j' where j: "j = Suc j'" by (cases j) simp_all
  have d: "utf8_decode (node_text (sum_tree j)) = Inr (map unat (sum_text j))"
    by (simp add: node_text_sum_tree sum_text_decodes)
  have l: "MAX_CHUNK_SIZE < length (map unat (sum_text j))"
    using "0.prems" by (simp add: length_sum_text MAX_CHUNK_SIZE_def)
  have k: "children (sum_tree j) \<noteq> []" using j by simp
  show ?case by (rule large_first_node_overflows[OF d l k]) simp
next
  case (Suc frames)
  then obtain j' where j: "j = Suc j'" by (cases j) simp_all
  have d: "utf8_decode (node_text (sum_tree j)) = Inr (map unat (sum_text j))"
    by (simp add: node_text_sum_tree sum_text_decodes)
  have l: "MAX_CHUNK_SIZE < length (map unat (sum_text j))"
    using Suc.prems by (simp add: length_sum_text MAX_CHUNK_SIZE_def)
  have k: "children (sum_tree j) \<noteq> []" using j by simp
  have "frames + 512 \<le> j'" using Suc.prems j by simp
  from Suc.IH[OF this]
  have "process_loop_limited (Suc frames - 1) src fname (children (sum_tree j)) 0 [] 0 chunks
          = Inl RecursionError"
    using j by simp
  then show ?case by (intro large_first_node_overflows[OF d l k]) simp
qed

text \<open>
  C9 fails on the tree of the sum of 2000 terms (7997 bytes, about 1500 nested
  \<^verbatim>\<open>binary_operator\<close> nodes of more than \<^verbatim>\<open>MAX_CHUNK_SIZE\<close> characters): even with 1000 frames
  left at the call of \<^verbatim>\<open>get_chunks\<close>, which is more than CPython's default limit leaves,
  the call ends with \<^verbatim>\<open>RecursionError\<close> instead of returning chunks. The input is
  well-formed and every text decodes.
\<close>

theorem deep_sum_raises_recursion_error:
  "get_chunks_limited 1000 (sum_root 1999) ''a.py'' = Inl RecursionError"
proof -
  let ?src = "map unat (sum_text 1999)"
  let ?stmt = "Node (sum_text 1999) 0 (4 * 1999 + 1) (0, 0) (0, 4 * 1999 + 1)
                 ''expression_statement'' [sum_tree 1999]"
  have inner: "process_loop_limited 998 ?src ''a.py'' (sum_tree 1999 # []) 0 [] 0 []
                 = Inl RecursionError"
    by (rule sum_tree_overflows) simp
  have d: "utf8_decode (node_text ?stmt) = Inr ?src" by (simp add: sum_text_decodes)
  have l: "MAX_CHUNK_SIZE < length ?src" by (simp add: length_sum_text MAX_CHUNK_SIZE_def)
  have k: "children ?stmt \<noteq> []" by simp
  have "process_loop_limited 999 ?src ''a.py'' (?stmt # []) 0 [] 0 [] = Inl RecursionError"
    by (rule large_first_node_overflows[OF d l k]) (simp add: inner)
  then show ?thesis
    by (simp add: get_chunks_limited_def sum_root_def sum_text_decodes)
qed

end
